theory Spec2Isabelle
  imports Complex_Main
begin

section \<open>Speaker separation and role assignment (scripts/lib\_speaker.py)\<close>

text \<open>
  Conventions of the embedding.
  \<^item> Python floats are modelled as exact rationals (\<open>rat\<close>): \<open>0.3\<close> is \<open>3/10\<close>.
    Every statement below relates values the code computes to one another; none depends
    on a rounding error.
  \<^item> A Python \<open>str\<close> is a \<open>string\<close> whose characters are the code points 0..255
    (Latin-1); code points above 255 are outside the model.
  \<^item> A dict read with \<open>d.get(k, default)\<close> has an optional field; \<open>None\<close> is the
    absent key.
  \<^item> An exception is the \<open>Inl\<close> branch of a sum.
\<close>

subsection \<open>Python string primitives\<close>

definition is_space :: "char \<Rightarrow> bool" where
  \<comment> \<open>\<open>str.isspace\<close> on the code points below 256\<close>
  "is_space c = (of_char c \<in> {9::nat, 10, 11, 12, 13, 28, 29, 30, 31, 32, 133, 160})"

definition strip :: "string \<Rightarrow> string" where
  "strip s = rev (dropWhile is_space (rev (dropWhile is_space s)))"

fun split_acc :: "string \<Rightarrow> string \<Rightarrow> string list" where
  "split_acc cur [] = (if cur = [] then [] else [cur])"
| "split_acc cur (c # cs) =
     (if is_space c then (if cur = [] then split_acc [] cs else cur # split_acc [] cs)
      else split_acc (cur @ [c]) cs)"

definition split :: "string \<Rightarrow> string list" where
  \<comment> \<open>\<open>s.split()\<close>: the maximal runs of characters that are not whitespace\<close>
  "split s = split_acc [] s"

definition lower_char :: "char \<Rightarrow> char" where
  "lower_char c =
     (let n = (of_char c :: nat)
      in if (65 \<le> n \<and> n \<le> 90) \<or> (192 \<le> n \<and> n \<le> 222 \<and> n \<noteq> 215)
         then char_of (n + 32) else c)"

definition lower :: "string \<Rightarrow> string" where
  "lower s = map lower_char s"

definition upper_char :: "char \<Rightarrow> char" where
  \<comment> \<open>\<open>str.upper\<close> where the result stays below 256; the three letters whose upper
      case lies above 255 or has two characters (181, 223, 255) are left as they are\<close>
  "upper_char c =
     (let n = (of_char c :: nat)
      in if (97 \<le> n \<and> n \<le> 122) \<or> (224 \<le> n \<and> n \<le> 254 \<and> n \<noteq> 247)
         then char_of (n - 32) else c)"

definition upper :: "string \<Rightarrow> string" where
  "upper s = map upper_char s"

fun join :: "string \<Rightarrow> string list \<Rightarrow> string" where
  \<comment> \<open>\<open>sep.join(xs)\<close>\<close>
  "join sep [] = []"
| "join sep [x] = x"
| "join sep (x # y # ys) = x @ sep @ join sep (y # ys)"

fun startswith :: "string \<Rightarrow> string \<Rightarrow> bool" where
  "startswith s [] = True"
| "startswith [] (p # ps) = False"
| "startswith (c # cs) (p # ps) = (c = p \<and> startswith cs ps)"

fun contains :: "string \<Rightarrow> string \<Rightarrow> bool" where
  \<comment> \<open>\<open>sub in s\<close>\<close>
  "contains [] sub = (sub = [])"
| "contains (c # cs) sub = (startswith (c # cs) sub \<or> contains cs sub)"

definition get_or :: "'a \<Rightarrow> 'a option \<Rightarrow> 'a" where
  \<comment> \<open>\<open>d.get(key, default)\<close> on an optional field\<close>
  "get_or d v = (case v of None \<Rightarrow> d | Some x \<Rightarrow> x)"

subsection \<open>Data model\<close>

record SpeakerSegment =
  ds_speaker :: string
  ds_start :: rat
  ds_end :: rat
  ds_confidence :: rat

text \<open>A segment of the transcriber: a dict with the keys start, end and text.\<close>

record WhisperSegment =
  ws_start :: "rat option"
  ws_end :: "rat option"
  ws_text :: "string option"

record AlignedSegment =
  as_speaker :: string
  as_start :: rat
  as_end :: rat
  as_text :: string
  as_confidence :: rat

subsection \<open>SegmentAligner: \<open>_align_segments\<close>\<close>

definition midpoint :: "WhisperSegment \<Rightarrow> rat" where
  "midpoint ws = (get_or 0 (ws_start ws) + get_or 0 (ws_end ws)) / 2"

definition covers :: "rat \<Rightarrow> SpeakerSegment \<Rightarrow> bool" where
  "covers m ds = (ds_start ds \<le> m \<and> m \<le> ds_end ds)"

definition matched :: "SpeakerSegment list \<Rightarrow> WhisperSegment \<Rightarrow> SpeakerSegment option" where
  \<comment> \<open>\<open>next((ds for ds in diar_segments if ds.start <= midpoint <= ds.end), None)\<close>\<close>
  "matched diar_segments ws = List.find (covers (midpoint ws)) diar_segments"

definition align_one :: "SpeakerSegment list \<Rightarrow> WhisperSegment \<Rightarrow> AlignedSegment" where
  "align_one diar_segments ws =
     (let m = matched diar_segments ws
      in \<lparr> as_speaker = (case m of Some ds \<Rightarrow> ds_speaker ds | None \<Rightarrow> ''speaker_1''),
           as_start = get_or 0 (ws_start ws),
           as_end = get_or 0 (ws_end ws),
           as_text = get_or [] (ws_text ws),
           as_confidence = (case m of Some ds \<Rightarrow> ds_confidence ds | None \<Rightarrow> 3/10) \<rparr>)"

fun align_loop :: "SpeakerSegment list \<Rightarrow> AlignedSegment list \<Rightarrow> WhisperSegment list \<Rightarrow> AlignedSegment list" where
  \<comment> \<open>the \<open>for ws in whisper_segments\<close> loop with its accumulator \<open>aligned\<close>\<close>
  "align_loop diar_segments aligned [] = aligned"
| "align_loop diar_segments aligned (ws # rest) =
     align_loop diar_segments (aligned @ [align_one diar_segments ws]) rest"

definition align_segments :: "WhisperSegment list \<Rightarrow> SpeakerSegment list \<Rightarrow> AlignedSegment list" where
  "align_segments whisper_segments diar_segments = align_loop diar_segments [] whisper_segments"

subsection \<open>SpeakerAggregator: \<open>_aggregate_by_speaker\<close>\<close>

text \<open>
  One entry of \<open>transcript_by_speaker\<close>. The stereo path writes the key \<open>role\<close> and no
  key \<open>segments\<close>; the mono path writes \<open>segments\<close> and no \<open>role\<close>.
\<close>

record SpeakerTranscript =
  st_speaker :: string
  st_role :: "string option"
  st_text :: string
  st_duration :: rat
  st_segments :: "AlignedSegment list option"
  st_word_count :: int

definition new_entry :: "string \<Rightarrow> SpeakerTranscript" where
  \<comment> \<open>the default of \<open>bucket.setdefault\<close>\<close>
  "new_entry speaker =
     \<lparr> st_speaker = speaker, st_role = None, st_text = [], st_duration = 0,
       st_segments = Some [], st_word_count = 0 \<rparr>"

definition add_segment :: "AlignedSegment \<Rightarrow> SpeakerTranscript \<Rightarrow> SpeakerTranscript" where
  "add_segment seg entry =
     entry \<lparr> st_text := st_text entry @ strip (as_text seg) @ '' '',
             st_duration := st_duration entry + max (as_end seg - as_start seg) 0,
             st_segments := map_option (\<lambda>segs. segs @ [seg]) (st_segments entry) \<rparr>"

text \<open>
  A dict keeps its keys in insertion order: an association list, in which a key that is
  present is updated in place and a new key goes to the end.
\<close>

fun update_entry ::
  "string \<Rightarrow> (SpeakerTranscript \<Rightarrow> SpeakerTranscript) \<Rightarrow>
   (string \<times> SpeakerTranscript) list \<Rightarrow> (string \<times> SpeakerTranscript) list" where
  "update_entry k f [] = [(k, f (new_entry k))]"
| "update_entry k f ((k', e) # rest) =
     (if k' = k then (k', f e) # rest else (k', e) # update_entry k f rest)"

fun aggregate_loop ::
  "(string \<times> SpeakerTranscript) list \<Rightarrow> AlignedSegment list \<Rightarrow>
   (string \<times> SpeakerTranscript) list" where
  "aggregate_loop bucket [] = bucket"
| "aggregate_loop bucket (seg # rest) =
     aggregate_loop (update_entry (as_speaker seg) (add_segment seg) bucket) rest"

definition normalize_entry :: "SpeakerTranscript \<Rightarrow> SpeakerTranscript" where
  "normalize_entry entry =
     (let t = strip (st_text entry)
      in entry \<lparr> st_text := t, st_word_count := int (length (split t)) \<rparr>)"

definition aggregate_by_speaker :: "AlignedSegment list \<Rightarrow> SpeakerTranscript list" where
  "aggregate_by_speaker aligned_segments =
     map (\<lambda>(k, entry). normalize_entry entry) (aggregate_loop [] aligned_segments)"

text \<open>Vocabulary of the statements about the aggregator.\<close>

fun first_appearance :: "'a list \<Rightarrow> 'a list" where
  \<comment> \<open>the distinct elements of a list, each at the place of its first occurrence\<close>
  "first_appearance [] = []"
| "first_appearance (x # xs) = x # filter (\<lambda>y. y \<noteq> x) (first_appearance xs)"

definition group_of :: "string \<Rightarrow> AlignedSegment list \<Rightarrow> AlignedSegment list" where
  "group_of speaker segs = filter (\<lambda>seg. as_speaker seg = speaker) segs"

definition spec_group_text :: "AlignedSegment list \<Rightarrow> string" where
  \<comment> \<open>the text as the specification words it: the non-empty trimmed fragments, joined by
      one space, then trimmed\<close>
  "spec_group_text g =
     strip (join '' '' (filter (\<lambda>t. t \<noteq> []) (map (\<lambda>seg. strip (as_text seg)) g)))"

subsection \<open>RoleInferencer: \<open>_infer_roles\<close>\<close>

datatype error = ValueError | AttributeError | IndexError | External string

record RoleMapping =
  rm_operator :: "string option"
  rm_client :: "string option"
  rm_confidence :: rat
  rm_strategy :: string
  rm_uncertain :: "bool option"
  rm_notes :: "string option"

definition OPERATOR_CUES :: "string list" where
  "OPERATOR_CUES =
     [''lo llamo de'', ''buenos dias'', ''buenos d'' @ [CHR 0xED] @ ''as'',
      ''mi nombre es'', ''habla con'', ''en que puedo ayudar'', ''soy del'']"

definition CLIENT_CUES :: "string list" where
  "CLIENT_CUES =
     [''no puedo pagar'', ''estoy sin trabajo'', ''necesito ayuda'',
      ''no me cobraron bien'', ''no tengo dinero'', ''no estoy de acuerdo'']"

definition count_cues :: "string list \<Rightarrow> string \<Rightarrow> nat" where
  \<comment> \<open>\<open>sum(1 for cue in cues if cue in text_lower)\<close>\<close>
  "count_cues cues text_lower = length (filter (\<lambda>cue. contains text_lower cue) cues)"

definition speaker_score :: "nat \<Rightarrow> SpeakerTranscript \<Rightarrow> rat" where
  "speaker_score idx speaker_entry =
     (let text_lower = lower (st_text speaker_entry);
          score0 = 0;
          score1 = (if idx = 0 then score0 + 3/10 else score0);
          score2 = score1 + of_nat (count_cues OPERATOR_CUES text_lower) * (2/10);
          score3 = score2 - of_nat (count_cues CLIENT_CUES text_lower) * (2/10)
      in score3)"

fun dict_set :: "'k \<Rightarrow> 'v \<Rightarrow> ('k \<times> 'v) list \<Rightarrow> ('k \<times> 'v) list" where
  \<comment> \<open>\<open>d[k] = v\<close> on a dict in insertion order\<close>
  "dict_set k v [] = [(k, v)]"
| "dict_set k v ((k', v') # rest) =
     (if k' = k then (k', v) # rest else (k', v') # dict_set k v rest)"

fun score_loop ::
  "(string \<times> rat) list \<Rightarrow> nat \<Rightarrow> SpeakerTranscript list \<Rightarrow> (string \<times> rat) list" where
  \<comment> \<open>\<open>for idx, speaker_entry in enumerate(transcript_by_speaker)\<close>\<close>
  "score_loop scores idx [] = scores"
| "score_loop scores idx (speaker_entry # rest) =
     score_loop (dict_set (st_speaker speaker_entry) (speaker_score idx speaker_entry) scores)
       (Suc idx) rest"

definition sorted_desc :: "(string \<times> rat) list \<Rightarrow> (string \<times> rat) list" where
  \<comment> \<open>\<open>sorted(scores.items(), key=lambda x: x[1], reverse=True)\<close>: a stable sort by
      descending score; entries of equal score keep their order\<close>
  "sorted_desc items = sort_key (\<lambda>x. - snd x) items"

definition infer_roles :: "SpeakerTranscript list \<Rightarrow> error + RoleMapping" where
  "infer_roles transcript_by_speaker =
     (if transcript_by_speaker = [] then
        Inr \<lparr> rm_operator = None, rm_client = None, rm_confidence = 0,
              rm_strategy = ''no_data'', rm_uncertain = None, rm_notes = None \<rparr>
      else
        let scores = score_loop [] 0 transcript_by_speaker
        in if length scores = 1 then
             (case scores of
                (speaker_id, s) # rest \<Rightarrow>
                  Inr \<lparr> rm_operator = Some speaker_id, rm_client = None, rm_confidence = 4/10,
                        rm_strategy = ''single_speaker'', rm_uncertain = None,
                        rm_notes = Some (''Solo se detect'' @ [CHR 0xF3] @ '' un hablante'') \<rparr>
              | [] \<Rightarrow> Inl IndexError)
           else
             (case sorted_desc scores of
                (operator_id, operator_score) # (client_id, client_score) # rest \<Rightarrow>
                  let confidence = min (max (operator_score - client_score) (2/10)) (95/100);
                      uncertain = (confidence < 5/10)
                  in Inr \<lparr> rm_operator = Some operator_id, rm_client = Some client_id,
                           rm_confidence = confidence, rm_strategy = ''cue_and_order'',
                           rm_uncertain = Some uncertain, rm_notes = None \<rparr>
              | _ \<Rightarrow> Inl IndexError))"

subsection \<open>Labeled transcript and BalanceComputer\<close>

definition role_or_speaker :: "SpeakerTranscript \<Rightarrow> string" where
  \<comment> \<open>\<open>entry.get("role") or entry.get("speaker")\<close>: an absent or empty role gives way to
      the speaker label\<close>
  "role_or_speaker entry =
     (case st_role entry of
        None \<Rightarrow> st_speaker entry
      | Some r \<Rightarrow> if r = [] then st_speaker entry else r)"

fun labeled_lines :: "string list \<Rightarrow> SpeakerTranscript list \<Rightarrow> string list" where
  "labeled_lines lines [] = lines"
| "labeled_lines lines (speaker_entry # rest) =
     (let role = role_or_speaker speaker_entry;
          text = strip (st_text speaker_entry)
      in if text = [] then labeled_lines lines rest
         else labeled_lines (lines @ [''['' @ upper role @ ''] '' @ text]) rest)"

definition build_labeled_transcript :: "SpeakerTranscript list \<Rightarrow> string" where
  "build_labeled_transcript transcript_by_speaker =
     strip (join [CHR 0x0A] (labeled_lines [] transcript_by_speaker))"

record SpeakingBalance =
  sb_operator_percentage :: rat
  sb_client_percentage :: rat
  sb_operator_words :: "int option"
  sb_client_words :: "int option"
  sb_unit :: "string option"
  sb_balance_quality :: string
  sb_note :: "string option"

fun count_words :: "int \<times> int \<Rightarrow> SpeakerTranscript list \<Rightarrow> int \<times> int" where
  \<comment> \<open>the loop that accumulates \<open>(operator_words, client_words)\<close>\<close>
  "count_words (operator_words, client_words) [] = (operator_words, client_words)"
| "count_words (operator_words, client_words) (entry # rest) =
     (let role = role_or_speaker entry; words = st_word_count entry
      in if role = ''operator'' then count_words (operator_words + words, client_words) rest
         else if role = ''client'' then count_words (operator_words, client_words + words) rest
         else count_words (operator_words, client_words) rest)"

definition compute_speaking_balance :: "SpeakerTranscript list \<Rightarrow> SpeakingBalance" where
  "compute_speaking_balance transcript_by_speaker =
     (case count_words (0, 0) transcript_by_speaker of
        (operator_words, client_words) \<Rightarrow>
          let total = operator_words + client_words
          in if total = 0 then
               \<lparr> sb_operator_percentage = 0, sb_client_percentage = 0,
                 sb_operator_words = None, sb_client_words = None, sb_unit = None,
                 sb_balance_quality = ''SIN_DATOS'', sb_note = Some ''sin palabras'' \<rparr>
             else
               let operator_pct = (of_int operator_words / of_int total) * (100::rat);
                   client_pct = (of_int client_words / of_int total) * 100;
                   balance_quality =
                     (if 35 \<le> operator_pct \<and> operator_pct \<le> 55 then ''BUENO''
                      else ''DESBALANCEADO'')
               in \<lparr> sb_operator_percentage = (of_int operator_words / of_int total) * 100,
                    sb_client_percentage = client_pct,
                    sb_operator_words = Some operator_words,
                    sb_client_words = Some client_words,
                    sb_unit = Some ''porcentaje'',
                    sb_balance_quality = balance_quality, sb_note = None \<rparr>)"

definition role_words :: "string \<Rightarrow> SpeakerTranscript list \<Rightarrow> int" where
  \<comment> \<open>vocabulary of the statements: the words of the entries counted for a role\<close>
  "role_words role entries =
     sum_list (map st_word_count (filter (\<lambda>e. role_or_speaker e = role) entries))"

subsection \<open>EnergyDiarizer: \<open>LightweightDiarizer\<close>\<close>

record LightweightDiarizer =
  frame_ms :: nat
  hop_ms :: nat
  energy_threshold :: rat

definition default_diarizer :: LightweightDiarizer where
  \<comment> \<open>\<open>LightweightDiarizer()\<close>, as the analyzer constructs it\<close>
  "default_diarizer = \<lparr> frame_ms = 32, hop_ms = 16, energy_threshold = 1/2 \<rparr>"

definition build_segment :: "nat \<Rightarrow> nat \<Rightarrow> nat \<Rightarrow> nat \<Rightarrow> nat \<Rightarrow> SpeakerSegment" where
  "build_segment start_frame end_frame hop_length sr idx =
     \<lparr> ds_speaker = (if idx mod 2 = 0 then ''speaker_1'' else ''speaker_2''),
       ds_start = of_nat (start_frame * hop_length) / of_nat sr,
       ds_end = of_nat ((end_frame + 1) * hop_length) / of_nat sr,
       ds_confidence = 5/10 \<rparr>"

text \<open>The local variables of the scan loop of \<open>diarize\<close>.\<close>

record scan_state =
  segments :: "SpeakerSegment list"
  active :: bool
  start_frame :: nat
  last_active_frame :: nat

definition scan_step :: "rat \<Rightarrow> nat \<Rightarrow> nat \<Rightarrow> scan_state \<Rightarrow> nat \<Rightarrow> rat \<Rightarrow> scan_state" where
  \<comment> \<open>the body of \<open>for idx, energy in enumerate(rms_norm)\<close>: its three \<open>if\<close>s in order\<close>
  "scan_step threshold hop_length sr st idx energy =
     (let st1 = (if energy \<ge> threshold \<and> \<not> active st
                 then st \<lparr> active := True, start_frame := idx \<rparr> else st);
          st2 = (if energy \<ge> threshold then st1 \<lparr> last_active_frame := idx \<rparr> else st1);
          st3 = (if energy < threshold \<and> active st2
                 then st2 \<lparr> segments := segments st2 @
                              [build_segment (start_frame st2) (last_active_frame st2)
                                 hop_length sr (length (segments st2))],
                            active := False \<rparr>
                 else st2)
      in st3)"

fun scan_loop :: "rat \<Rightarrow> nat \<Rightarrow> nat \<Rightarrow> scan_state \<Rightarrow> nat \<Rightarrow> rat list \<Rightarrow> scan_state" where
  "scan_loop threshold hop_length sr st idx [] = st"
| "scan_loop threshold hop_length sr st idx (energy # rest) =
     scan_loop threshold hop_length sr (scan_step threshold hop_length sr st idx energy)
       (Suc idx) rest"

definition finish_scan :: "nat \<Rightarrow> nat \<Rightarrow> scan_state \<Rightarrow> SpeakerSegment list" where
  \<comment> \<open>\<open>if active: segments.append(...)\<close> after the loop\<close>
  "finish_scan hop_length sr st =
     (if active st
      then segments st @
             [build_segment (start_frame st) (last_active_frame st) hop_length sr
                (length (segments st))]
      else segments st)"

definition scan_segments :: "rat \<Rightarrow> nat \<Rightarrow> nat \<Rightarrow> rat list \<Rightarrow> SpeakerSegment list" where
  "scan_segments threshold hop_length sr rms_norm =
     finish_scan hop_length sr
       (scan_loop threshold hop_length sr
          \<lparr> segments = [], active = False, start_frame = 0, last_active_frame = 0 \<rparr>
          0 rms_norm)"

definition np_max :: "rat list \<Rightarrow> error + rat" where
  \<comment> \<open>\<open>np.max\<close>: a ValueError on an empty array\<close>
  "np_max xs = (case xs of [] \<Rightarrow> Inl ValueError | x # rest \<Rightarrow> Inr (foldl max x rest))"

definition np_mean :: "rat list \<Rightarrow> rat" where
  "np_mean xs = sum_list xs / of_nat (length xs)"

definition normalized :: "rat \<Rightarrow> rat list \<Rightarrow> rat list" where
  \<comment> \<open>\<open>rms / (np.max(rms) + 1e-9)\<close>\<close>
  "normalized m rms = map (\<lambda>x. x / (m + 1/1000000000)) rms"

definition threshold_of :: "LightweightDiarizer \<Rightarrow> rat list \<Rightarrow> rat" where
  "threshold_of d rms_norm = max (energy_threshold d * np_mean rms_norm) (5/100)"

definition hop_length_of :: "LightweightDiarizer \<Rightarrow> nat" where
  \<comment> \<open>\<open>int(sr * self.hop_ms / 1000)\<close> at the fixed rate \<open>sr = 16000\<close>\<close>
  "hop_length_of d = (16000 * hop_ms d) div 1000"

definition frame_length_of :: "LightweightDiarizer \<Rightarrow> nat" where
  "frame_length_of d = (16000 * frame_ms d) div 1000"

definition fallback_segment :: "nat \<Rightarrow> SpeakerSegment" where
  \<comment> \<open>the single segment over the whole clip, \<open>duration = len(y) / sr\<close>\<close>
  "fallback_segment y_len =
     \<lparr> ds_speaker = ''speaker_1'', ds_start = 0, ds_end = of_nat y_len / of_nat (16000::nat),
       ds_confidence = 2/10 \<rparr>"

text \<open>
  \<open>librosa\<close> is a collaborator: for a path, a frame length and a hop length it fails
  or returns the number of samples \<open>len(y)\<close> of the loaded clip and the frame-wise RMS
  energies. The energies are non-negative and there is at least one frame (the frames
  are centred and the signal is padded), which the statements below assume where they
  need it.
\<close>

type_synonym path = string

type_synonym librosa = "path \<Rightarrow> nat \<Rightarrow> nat \<Rightarrow> error + nat \<times> rat list"

definition diarize :: "librosa \<Rightarrow> LightweightDiarizer \<Rightarrow> path \<Rightarrow> error + SpeakerSegment list" where
  "diarize load_rms d audio_path =
     (case load_rms audio_path (frame_length_of d) (hop_length_of d) of
        Inl e \<Rightarrow> Inl e
      | Inr (y_len, rms) \<Rightarrow>
          (case np_max rms of
             Inl e \<Rightarrow> Inl e
           | Inr m \<Rightarrow>
               let rms_norm = normalized m rms;
                   threshold = threshold_of d rms_norm;
                   segs = scan_segments threshold (hop_length_of d) 16000 rms_norm
               in if segs = [] then Inr [fallback_segment y_len] else Inr segs))"

text \<open>
  The scan as the specification words it: a segment for every maximal run of consecutive
  frames at or above the threshold, from the first frame of the run to its last one.
  \<open>voiced_runs threshold i frames\<close> lists the runs of \<open>frames\<close> as pairs of frame
  indices, \<open>i\<close> being the index of the first frame of the list.
\<close>

function voiced_runs :: "rat \<Rightarrow> nat \<Rightarrow> rat list \<Rightarrow> (nat \<times> nat) list" where
  "voiced_runs threshold i [] = []"
| "voiced_runs threshold i (e # es) =
     (if e \<ge> threshold
      then (i, i + length (takeWhile (\<lambda>x. x \<ge> threshold) es)) #
           voiced_runs threshold (i + length (takeWhile (\<lambda>x. x \<ge> threshold) es) + 1)
             (dropWhile (\<lambda>x. x \<ge> threshold) es)
      else voiced_runs threshold (Suc i) es)"
  by pat_completeness auto
termination
  by (relation "measure (\<lambda>(threshold, i, es). length es)")
     (auto simp: le_imp_less_Suc length_dropWhile_le)

definition spec_segment :: "nat \<Rightarrow> nat \<Rightarrow> nat \<times> (nat \<times> nat) \<Rightarrow> SpeakerSegment" where
  \<comment> \<open>the segment of the \<open>k\<close>-th run: from its first frame to the frame after its
      last one, in seconds,
      labelled by the parity of \<open>k\<close>\<close>
  "spec_segment hop_length sr p =
     (case p of (k, (first_frame, last_frame)) \<Rightarrow>
        \<lparr> ds_speaker = (if even k then ''speaker_1'' else ''speaker_2''),
          ds_start = of_nat (first_frame * hop_length) / of_nat sr,
          ds_end = of_nat ((last_frame + 1) * hop_length) / of_nat sr,
          ds_confidence = 1/2 \<rparr>)"

subsection \<open>Effects: the files on disk and the calls made\<close>

text \<open>
  The facade works on a world that holds the temporary files present on disk and the
  list of the invocations made so far, oldest first. An action takes the world and
  returns an error or a value, and the world after it.
\<close>

datatype event =
    Split path
  | Transcribe path bool
  | Diarize path
  | Align
  | Aggregate
  | InferRoles
  | Analyze string

record world =
  fs :: "path set"
  calls :: "event list"

type_synonym 'a action = "world \<Rightarrow> (error + 'a) \<times> world"

definition emit :: "event \<Rightarrow> world \<Rightarrow> world" where
  "emit ev w = w \<lparr> calls := calls w @ [ev] \<rparr>"

definition ret :: "'a \<Rightarrow> 'a action" where
  "ret x w = (Inr x, w)"

definition and_then :: "'a action \<Rightarrow> ('a \<Rightarrow> 'b action) \<Rightarrow> 'b action" where
  \<comment> \<open>sequencing: an exception of the first action ends the sequence\<close>
  "and_then m f w = (case m w of (Inl e, w') \<Rightarrow> (Inl e, w') | (Inr x, w') \<Rightarrow> f x w')"

definition require_dict :: "'a option \<Rightarrow> 'a action" where
  \<comment> \<open>a method call on a value that may be \<open>None\<close>: \<open>None.get(...)\<close> is an AttributeError\<close>
  "require_dict v w = (case v of None \<Rightarrow> (Inl AttributeError, w) | Some x \<Rightarrow> (Inr x, w))"

subsection \<open>RoleAwareSentimentAggregator: \<open>_sentiment_for_roles\<close>\<close>

record 'v RoleSentiment =
  rs_operator :: "'v option"
  rs_client :: "'v option"
  rs_overall :: 'v

type_synonym 'v analyzer = "string \<Rightarrow> error + 'v"

definition analyze_text :: "'v analyzer \<Rightarrow> string \<Rightarrow> 'v action" where
  \<comment> \<open>one invocation of \<open>self.sentiment_analyzer.analyze_text\<close>\<close>
  "analyze_text an text w = (an text, emit (Analyze text) w)"

definition role_text :: "string \<Rightarrow> SpeakerTranscript list \<Rightarrow> string" where
  \<comment> \<open>\<open>" ".join(entry.get("text", "") for entry in ... if entry.get("role") == role)\<close>\<close>
  "role_text role transcript_by_speaker =
     join '' '' (map st_text (filter (\<lambda>entry. st_role entry = Some role) transcript_by_speaker))"

definition analyze_if_text :: "'v analyzer \<Rightarrow> string \<Rightarrow> 'v option action" where
  \<comment> \<open>\<open>analyze_text(t) if t else None\<close>\<close>
  "analyze_if_text an text =
     (if text \<noteq> [] then and_then (analyze_text an text) (\<lambda>v. ret (Some v)) else ret None)"

definition sentiment_for_roles ::
  "'v analyzer option \<Rightarrow> SpeakerTranscript list \<Rightarrow> string \<Rightarrow> 'v RoleSentiment option action" where
  \<comment> \<open>the result \<open>None\<close> is the empty dict returned without an analyzer\<close>
  "sentiment_for_roles sentiment_analyzer transcript_by_speaker combined_text =
     (case sentiment_analyzer of
        None \<Rightarrow> ret None
      | Some an \<Rightarrow>
          let operator_text = role_text ''operator'' transcript_by_speaker;
              client_text = role_text ''client'' transcript_by_speaker
          in and_then (analyze_if_text an operator_text) (\<lambda>operator.
             and_then (analyze_if_text an client_text) (\<lambda>client.
             and_then (analyze_text an combined_text) (\<lambda>overall.
               ret (Some \<lparr> rs_operator = operator, rs_client = client,
                            rs_overall = overall \<rparr>)))))"

definition expected_calls :: "SpeakerTranscript list \<Rightarrow> string \<Rightarrow> event list" where
  \<comment> \<open>vocabulary of the statements: the invocations of a run in which no analysis fails\<close>
  "expected_calls transcript_by_speaker combined_text =
     (if role_text ''operator'' transcript_by_speaker \<noteq> []
      then [Analyze (role_text ''operator'' transcript_by_speaker)] else []) @
     (if role_text ''client'' transcript_by_speaker \<noteq> []
      then [Analyze (role_text ''client'' transcript_by_speaker)] else []) @
     [Analyze combined_text]"

subsection \<open>SpeakerRoleAnalyzer: the facade\<close>

record AudioProfile =
  ap_channels :: int
  ap_sample_rate :: int
  ap_duration_seconds :: rat
  ap_sample_width :: int
  ap_frame_rate :: int
  ap_format :: string

definition is_stereo :: "AudioProfile \<Rightarrow> bool" where
  "is_stereo profile = (ap_channels profile = 2)"

text \<open>What \<open>AudioSegment.from_file\<close> tells about a file.\<close>

record AudioSegmentInfo =
  au_channels :: int
  au_frame_rate :: int
  au_length_ms :: int
  au_sample_width :: int

text \<open>The dict a transcriber returns; the transcriber may also return \<open>None\<close>.\<close>

record Transcription =
  tx_text :: "string option"
  tx_language :: "string option"
  tx_duration :: "rat option"
  tx_segments :: "WhisperSegment list option"

text \<open>
  The collaborators of the analyzer: the audio decoder, the names
  \<open>tempfile.NamedTemporaryFile\<close> picks (from the files present and a suffix), \<open>librosa\<close>,
  the transcriber with its two attributes, the optional sentiment analyzer, and the
  name and suffix of a path.
\<close>

record 'v collaborators =
  c_from_file :: "path \<Rightarrow> error + AudioSegmentInfo"
  c_temp_name :: "path set \<Rightarrow> string \<Rightarrow> path"
  c_librosa :: librosa
  c_transcribe_file :: "path \<Rightarrow> bool \<Rightarrow> error + Transcription option"
  c_model_name :: string
  c_device :: string
  c_sentiment_analyzer :: "'v analyzer option"
  c_path_name :: "path \<Rightarrow> string"
  c_path_suffix :: "path \<Rightarrow> string"

record 'v TranscriptResult =
  tr_filename :: string
  tr_text :: string
  tr_language :: string
  tr_duration :: rat
  tr_model_used :: string
  tr_device_used :: string
  tr_char_count :: nat
  tr_segments :: "AlignedSegment list"
  tr_transcript_by_speaker :: "SpeakerTranscript list"
  tr_role_mapping :: RoleMapping
  tr_speaking_balance :: SpeakingBalance
  tr_sentiment_by_role :: "'v RoleSentiment option"

record 'v SpeakerSummary =
  ss_speakers :: "SpeakerTranscript list"
  ss_role_mapping :: RoleMapping
  ss_sentiment_by_role :: "'v RoleSentiment option"
  ss_speaking_balance :: SpeakingBalance
  ss_audio_profile :: AudioProfile

record 'v ProcessResult =
  pr_transcript :: "'v TranscriptResult"
  pr_audio_profile :: AudioProfile
  pr_speaker_summary :: "'v SpeakerSummary"

definition detect_audio_profile :: "'v collaborators \<Rightarrow> path \<Rightarrow> error + AudioProfile" where
  "detect_audio_profile c audio_path =
     (case c_from_file c audio_path of
        Inl e \<Rightarrow> Inl e
      | Inr audio \<Rightarrow>
          Inr \<lparr> ap_channels = au_channels audio,
                ap_sample_rate = au_frame_rate audio,
                ap_duration_seconds = of_int (au_length_ms audio) / 1000,
                ap_sample_width = au_sample_width audio,
                ap_frame_rate = au_frame_rate audio,
                ap_format = lower (c_path_suffix c audio_path) \<rparr>)"

definition split_stereo_channels :: "'v collaborators \<Rightarrow> path \<Rightarrow> (path \<times> path) action" where
  \<comment> \<open>the two files are created with \<open>delete=False\<close> and stay on disk when the function
      returns\<close>
  "split_stereo_channels c audio_path w =
     (case c_from_file c audio_path of
        Inl e \<Rightarrow> (Inl e, w)
      | Inr audio \<Rightarrow>
          if au_channels audio \<noteq> 2 then (Inl ValueError, w)
          else
            let left_tmp = c_temp_name c (fs w) ''_left.wav'';
                w1 = w \<lparr> fs := insert left_tmp (fs w) \<rparr>;
                right_tmp = c_temp_name c (fs w1) ''_right.wav'';
                w2 = w1 \<lparr> fs := insert right_tmp (fs w1) \<rparr>
            in (Inr (left_tmp, right_tmp), w2))"

definition transcribe :: "'v collaborators \<Rightarrow> path \<Rightarrow> bool \<Rightarrow> Transcription option action" where
  \<comment> \<open>one invocation of \<open>self.transcriber.transcribe_file\<close>\<close>
  "transcribe c audio_path with_segments w =
     (c_transcribe_file c audio_path with_segments,
      emit (Transcribe audio_path with_segments) w)"

definition build_speaker_summary ::
  "SpeakerTranscript list \<Rightarrow> RoleMapping \<Rightarrow> 'v RoleSentiment option \<Rightarrow> AudioProfile \<Rightarrow>
   'v SpeakerSummary" where
  "build_speaker_summary transcript_by_speaker role_mapping sentiment profile =
     \<lparr> ss_speakers = transcript_by_speaker,
       ss_role_mapping = role_mapping,
       ss_sentiment_by_role = sentiment,
       ss_speaking_balance = compute_speaking_balance transcript_by_speaker,
       ss_audio_profile = profile \<rparr>"

definition stereo_role_mapping :: RoleMapping where
  "stereo_role_mapping =
     \<lparr> rm_operator = Some ''channel_left'', rm_client = Some ''channel_right'',
       rm_confidence = 95/100, rm_strategy = ''stereo_channel_mapping'',
       rm_uncertain = None,
       rm_notes = Some ''Canal izquierdo forzado a operador por policy'' \<rparr>"

definition stereo_entries :: "AudioProfile \<Rightarrow> Transcription \<Rightarrow> Transcription \<Rightarrow> SpeakerTranscript list" where
  "stereo_entries profile operator_tx client_tx =
     [\<lparr> st_speaker = ''channel_left'', st_role = Some ''operator'',
        st_text = get_or [] (tx_text operator_tx),
        st_duration = get_or (ap_duration_seconds profile / 2) (tx_duration operator_tx),
        st_segments = None,
        st_word_count = int (length (split (get_or [] (tx_text operator_tx)))) \<rparr>,
      \<lparr> st_speaker = ''channel_right'', st_role = Some ''client'',
        st_text = get_or [] (tx_text client_tx),
        st_duration = get_or (ap_duration_seconds profile / 2) (tx_duration client_tx),
        st_segments = None,
        st_word_count = int (length (split (get_or [] (tx_text client_tx)))) \<rparr>]"

definition process_stereo :: "'v collaborators \<Rightarrow> path \<Rightarrow> AudioProfile \<Rightarrow> 'v ProcessResult action" where
  "process_stereo c audio_path profile =
     and_then (\<lambda>w. split_stereo_channels c audio_path (emit (Split audio_path) w))
       (\<lambda>(left_path, right_path).
     and_then (transcribe c left_path False) (\<lambda>operator_res.
     and_then (transcribe c right_path False) (\<lambda>client_res.
     and_then (require_dict operator_res) (\<lambda>operator_tx.
     and_then (require_dict client_res) (\<lambda>client_tx.
       let transcript_by_speaker = stereo_entries profile operator_tx client_tx;
           combined_text = build_labeled_transcript transcript_by_speaker;
           role_mapping = stereo_role_mapping
       in and_then
            (sentiment_for_roles (c_sentiment_analyzer c) transcript_by_speaker combined_text)
            (\<lambda>sentiment.
          let speaking_balance = compute_speaking_balance transcript_by_speaker;
              language =
                (if get_or ''es'' (tx_language operator_tx) \<noteq> []
                 then get_or ''es'' (tx_language operator_tx)
                 else get_or ''es'' (tx_language client_tx));
              transcript_result =
                \<lparr> tr_filename = c_path_name c audio_path,
                  tr_text = combined_text,
                  tr_language = language,
                  tr_duration = ap_duration_seconds profile,
                  tr_model_used = c_model_name c,
                  tr_device_used = c_device c,
                  tr_char_count = length combined_text,
                  tr_segments = [],
                  tr_transcript_by_speaker = transcript_by_speaker,
                  tr_role_mapping = role_mapping,
                  tr_speaking_balance = speaking_balance,
                  tr_sentiment_by_role = sentiment \<rparr>
          in ret \<lparr> pr_transcript = transcript_result,
                   pr_audio_profile = profile,
                   pr_speaker_summary =
                     build_speaker_summary transcript_by_speaker role_mapping sentiment
                       profile \<rparr>))))))"

definition process_mono :: "'v collaborators \<Rightarrow> path \<Rightarrow> AudioProfile \<Rightarrow> 'v ProcessResult action" where
  "process_mono c audio_path profile =
     and_then (\<lambda>w. (diarize (c_librosa c) default_diarizer audio_path, emit (Diarize audio_path) w))
       (\<lambda>diar_segments.
     and_then (transcribe c audio_path True) (\<lambda>whisper_res.
     and_then (require_dict whisper_res) (\<lambda>whisper_result.
     and_then (\<lambda>w. (Inr (align_segments (get_or [] (tx_segments whisper_result)) diar_segments),
                     emit Align w)) (\<lambda>aligned_segments.
     and_then (\<lambda>w. (Inr (aggregate_by_speaker aligned_segments), emit Aggregate w))
       (\<lambda>transcript_by_speaker.
     and_then (\<lambda>w. (infer_roles transcript_by_speaker, emit InferRoles w)) (\<lambda>role_mapping.
       let combined_text = build_labeled_transcript transcript_by_speaker
       in and_then
            (sentiment_for_roles (c_sentiment_analyzer c) transcript_by_speaker combined_text)
            (\<lambda>sentiment.
          let speaking_balance = compute_speaking_balance transcript_by_speaker;
              transcript_result =
                \<lparr> tr_filename = c_path_name c audio_path,
                  tr_text = combined_text,
                  tr_language = get_or ''es'' (tx_language whisper_result),
                  tr_duration =
                    get_or (ap_duration_seconds profile) (tx_duration whisper_result),
                  tr_model_used = c_model_name c,
                  tr_device_used = c_device c,
                  tr_char_count = length combined_text,
                  tr_segments = aligned_segments,
                  tr_transcript_by_speaker = transcript_by_speaker,
                  tr_role_mapping = role_mapping,
                  tr_speaking_balance = speaking_balance,
                  tr_sentiment_by_role = sentiment \<rparr>
          in ret \<lparr> pr_transcript = transcript_result,
                   pr_audio_profile = profile,
                   pr_speaker_summary =
                     build_speaker_summary transcript_by_speaker role_mapping sentiment
                       profile \<rparr>)))))))"

definition process_audio :: "'v collaborators \<Rightarrow> path \<Rightarrow> 'v ProcessResult action" where
  "process_audio c audio_path w =
     (case detect_audio_profile c audio_path of
        Inl e \<Rightarrow> (Inl e, w)
      | Inr audio_profile \<Rightarrow>
          if is_stereo audio_profile then process_stereo c audio_path audio_profile w
          else process_mono c audio_path audio_profile w)"

subsection \<open>Vocabulary of the proofs\<close>

text \<open>
  Auxiliary notions the proofs use: the entry of a key in a bucket and the entry the
  aggregator folds for a speaker, the score pair of an indexed entry, what an action adds
  to the calls, keeps of the files and returns, the invocations of the stereo path, the
  profile built from a decoded file, the label and balance invariants of the mono path,
  and a set of collaborators for concrete runs.
\<close>

definition entry0 :: "(string \<times> SpeakerTranscript) list \<Rightarrow> string \<Rightarrow> SpeakerTranscript" where
  "entry0 b k = (case map_of b k of None \<Rightarrow> new_entry k | Some e \<Rightarrow> e)"

definition folded_entry :: "string \<Rightarrow> AlignedSegment list \<Rightarrow> SpeakerTranscript" where
  "folded_entry k segs =
     normalize_entry (foldl (\<lambda>e seg. add_segment seg e) (new_entry k) (group_of k segs))"


definition adds :: "(event \<Rightarrow> bool) \<Rightarrow> 'a action \<Rightarrow> bool" where
  \<comment> \<open>the action adds invocations of the given kind only, and no other\<close>
  "adds P m = (\<forall>w. \<exists>cs. calls (snd (m w)) = calls w @ cs \<and> list_all P cs)"

definition keeps_fs :: "'a action \<Rightarrow> bool" where
  \<comment> \<open>the action creates and deletes no file\<close>
  "keeps_fs m = (\<forall>w. fs (snd (m w)) = fs w)"

definition stereo_event :: "event \<Rightarrow> bool" where
  \<comment> \<open>the invocations of the stereo path: the splitter, the transcriber, the sentiment
      analyzer\<close>
  "stereo_event ev =
     (case ev of Split p \<Rightarrow> True | Transcribe p b \<Rightarrow> True | Analyze t \<Rightarrow> True
      | Diarize p \<Rightarrow> False | Align \<Rightarrow> False | Aggregate \<Rightarrow> False | InferRoles \<Rightarrow> False)"

definition returns :: "('a \<Rightarrow> bool) \<Rightarrow> 'a action \<Rightarrow> bool" where
  \<comment> \<open>every value the action returns satisfies the predicate\<close>
  "returns Q m = (\<forall>w r w'. m w = (Inr r, w') \<longrightarrow> Q r)"

definition profile_of :: "'v collaborators \<Rightarrow> path \<Rightarrow> AudioSegmentInfo \<Rightarrow> AudioProfile" where
  \<comment> \<open>the profile \<open>detect_audio_profile\<close> builds from a decoded file\<close>
  "profile_of c audio_path audio =
     \<lparr> ap_channels = au_channels audio,
       ap_sample_rate = au_frame_rate audio,
       ap_duration_seconds = of_int (au_length_ms audio) / 1000,
       ap_sample_width = au_sample_width audio,
       ap_frame_rate = au_frame_rate audio,
       ap_format = lower (c_path_suffix c audio_path) \<rparr>"

definition demo_collaborators :: "nat collaborators" where
  \<comment> \<open>collaborators for the examples: a two-channel file of four seconds, a transcriber
      that hears the same sentence in every file, a sentiment analyzer that returns the
      length of its text\<close>
  "demo_collaborators =
     \<lparr> c_from_file = (\<lambda>p. Inr \<lparr> au_channels = 2, au_frame_rate = 8000, au_length_ms = 4000,
                               au_sample_width = 2 \<rparr>),
       c_temp_name = (\<lambda>files suffix. ''/tmp/tmp'' @ suffix),
       c_librosa = (\<lambda>p fl hl. Inr (1024, [0, 1, 1, 0, 1])),
       c_transcribe_file =
         (\<lambda>p with_segments.
            Inr (Some \<lparr> tx_text = Some ''hola buenos dias'', tx_language = Some ''es'',
                        tx_duration = Some 2,
                        tx_segments =
                          (if with_segments
                           then Some [\<lparr> ws_start = Some 0, ws_end = Some (1/10),
                                        ws_text = Some ''hola buenos dias'' \<rparr>]
                           else Some []) \<rparr>)),
       c_model_name = ''small'',
       c_device = ''cpu'',
       c_sentiment_analyzer = Some (\<lambda>t. Inr (length t)),
       c_path_name = (\<lambda>p. p),
       c_path_suffix = (\<lambda>p. ''.wav'') \<rparr>"

definition mono_labelled :: "SpeakerTranscript list \<Rightarrow> bool" where
  \<comment> \<open>entries as the mono path builds them: no role, a label of the diarizer\<close>
  "mono_labelled tbs =
     (\<forall>e \<in> set tbs. st_role e = None \<and> st_speaker e \<in> {''speaker_1'', ''speaker_2''})"

definition zero_balance :: SpeakingBalance where
  "zero_balance =
     \<lparr> sb_operator_percentage = 0, sb_client_percentage = 0,
       sb_operator_words = None, sb_client_words = None, sb_unit = None,
       sb_balance_quality = ''SIN_DATOS'', sb_note = Some ''sin palabras'' \<rparr>"

section \<open>Theorems\<close>

lemma align_loop_map:
  "align_loop diar acc wss = acc @ map (align_one diar) wss"
  by (induction wss arbitrary: acc) simp_all

lemma align_segments_map:
  "align_segments wss diar = map (align_one diar) wss"
  by (simp add: align_segments_def align_loop_map)



lemma align_one_none:
  assumes "matched diar ws = None"
  shows "as_speaker (align_one diar ws) = ''speaker_1''"
    and "as_confidence (align_one diar ws) = 3/10"
    and "\<forall>ds \<in> set diar. \<not> covers (midpoint ws) ds"
proof -
  show "as_speaker (align_one diar ws) = ''speaker_1''"
    by (simp add: align_one_def Let_def assms)
  show "as_confidence (align_one diar ws) = 3/10"
    by (simp add: align_one_def Let_def assms)
  show "\<forall>ds \<in> set diar. \<not> covers (midpoint ws) ds"
    using assms by (simp add: matched_def find_None_iff)
qed





subsection \<open>BalanceComputer\<close>



lemma count_words_totals:
  "count_words (a, b) es = (a + role_words ''operator'' es, b + role_words ''client'' es)"
  by (induction es arbitrary: a b) (simp_all add: role_words_def Let_def)






subsection \<open>SpeakerAggregator\<close>

lemma strip_append_space:
  "is_space c \<Longrightarrow> strip (s @ [c]) = strip s"
proof (cases "\<forall>x \<in> set s. is_space x")
  case True
  assume c: "is_space c"
  from True have a: "dropWhile is_space s = []" by simp
  from True c have b: "dropWhile is_space (s @ [c]) = []"
    by (simp add: dropWhile_append2)
  show ?thesis by (simp only: strip_def a b)
next
  case False
  assume c: "is_space c"
  from False have "dropWhile is_space (s @ [c]) = dropWhile is_space s @ [c]"
    by (simp add: dropWhile_append)
  with c show ?thesis by (simp add: strip_def)
qed

lemma concat_map_sep:
  "xs \<noteq> [] \<Longrightarrow> concat (map (\<lambda>x. x @ sep) xs) = join sep xs @ sep"
  by (induction sep xs rule: join.induct) simp_all

lemma is_space_blank: "is_space (CHR '' '')"
  by (simp add: is_space_def)

lemma strip_concat_fragments:
  "strip (concat (map (\<lambda>x. x @ '' '') xs)) = strip (join '' '' xs)"
proof (cases "xs = []")
  case True
  then show ?thesis by simp
next
  case False
  have "strip (join '' '' xs @ [CHR '' '']) = strip (join '' '' xs)"
    by (rule strip_append_space) (rule is_space_blank)
  with False show ?thesis by (simp add: concat_map_sep)
qed

lemma first_appearance_filter:
  "first_appearance (filter P xs) = filter P (first_appearance xs)"
proof (induction xs)
  case Nil
  show ?case by simp
next
  case (Cons x xs)
  show ?case
  proof (cases "P x")
    case True
    have "filter P (filter (\<lambda>y. y \<noteq> x) (first_appearance xs)) =
        filter (\<lambda>y. y \<noteq> x) (filter P (first_appearance xs))"
      by (simp add: conj_commute)
    with True Cons show ?thesis by simp
  next
    case False
    then have "filter P (filter (\<lambda>y. y \<noteq> x) (first_appearance xs)) =
        filter P (first_appearance xs)"
      by (auto intro: filter_cong)
    with False Cons show ?thesis by simp
  qed
qed

lemma set_first_appearance: "set (first_appearance xs) = set xs"
  by (induction xs) auto

lemma distinct_first_appearance: "distinct (first_appearance xs)"
  by (induction xs) (simp_all add: set_first_appearance)

lemma keys_update_entry:
  "map fst (update_entry k f b) =
     (if k \<in> set (map fst b) then map fst b else map fst b @ [k])"
proof (induction b)
  case Nil
  show ?case by simp
next
  case (Cons p b)
  obtain k' e where p: "p = (k', e)" by (cases p)
  show ?case
  proof (cases "k' = k")
    case True
    then show ?thesis by (simp add: p)
  next
    case False
    then show ?thesis using Cons by (simp add: p)
  qed
qed

lemma map_of_update_entry:
  "map_of (update_entry k f b) k' =
     (if k' = k then Some (f (entry0 b k)) else map_of b k')"
  by (induction b) (auto simp: entry0_def)

lemma entry0_update_entry:
  "entry0 (update_entry k f b) k' = (if k' = k then f (entry0 b k) else entry0 b k')"
  by (simp add: entry0_def map_of_update_entry)

lemma keys_aggregate_loop:
  "map fst (aggregate_loop b segs) =
     map fst b @ first_appearance (filter (\<lambda>s. s \<notin> set (map fst b)) (map as_speaker segs))"
proof (induction segs arbitrary: b)
  case Nil
  show ?case by simp
next
  case (Cons seg rest)
  show ?case
  proof (cases "as_speaker seg \<in> set (map fst b)")
    case True
    then show ?thesis
      by (simp add: Cons keys_update_entry)
  next
    case False
    let ?K = "set (map fst b)" and ?k = "as_speaker seg" and ?L = "map as_speaker rest"
    have keys': "set (map fst b @ [?k]) = insert ?k ?K" by simp
    have "filter (\<lambda>s. s \<notin> insert ?k ?K) ?L =
        filter (\<lambda>y. y \<noteq> ?k) (filter (\<lambda>s. s \<notin> ?K) ?L)"
      by (simp add: conj_commute)
    then have fa: "first_appearance (filter (\<lambda>s. s \<notin> insert ?k ?K) ?L) =
        filter (\<lambda>y. y \<noteq> ?k) (first_appearance (filter (\<lambda>s. s \<notin> ?K) ?L))"
      by (simp only: first_appearance_filter)
    have "map fst (aggregate_loop b (seg # rest)) =
        (map fst b @ [?k]) @ first_appearance (filter (\<lambda>s. s \<notin> insert ?k ?K) ?L)"
      using False by (simp only: aggregate_loop.simps Cons keys_update_entry keys' if_False)
    also have "\<dots> = map fst b @ first_appearance (filter (\<lambda>s. s \<notin> ?K) (map as_speaker (seg # rest)))"
      using False by (simp only: fa) simp
    finally show ?thesis .
  qed
qed

lemma values_aggregate_loop:
  "map_of (aggregate_loop b segs) k =
     (if k \<in> set (map fst b) \<union> set (map as_speaker segs)
      then Some (foldl (\<lambda>e seg. add_segment seg e) (entry0 b k) (group_of k segs))
      else None)"
proof (induction segs arbitrary: b)
  case Nil
  show ?case
    by (cases "map_of b k") (auto simp: group_of_def entry0_def map_of_eq_None_iff
        dest: map_of_SomeD intro: rev_image_eqI)
next
  case (Cons seg rest)
  show ?case
    by (auto simp: Cons entry0_update_entry keys_update_entry group_of_def)
qed

lemma add_segment_fields:
  "st_speaker (add_segment seg e) = st_speaker e"
  "st_role (add_segment seg e) = st_role e"
  "st_word_count (add_segment seg e) = st_word_count e"
  "st_text (add_segment seg e) = st_text e @ strip (as_text seg) @ '' ''"
  "st_duration (add_segment seg e) = st_duration e + max (as_end seg - as_start seg) 0"
  "st_segments (add_segment seg e) = map_option (\<lambda>segs. segs @ [seg]) (st_segments e)"
  by (simp_all add: add_segment_def)

lemma foldl_add_segment:
  "st_speaker (foldl (\<lambda>e seg. add_segment seg e) e g) = st_speaker e"
  "st_role (foldl (\<lambda>e seg. add_segment seg e) e g) = st_role e"
  "st_word_count (foldl (\<lambda>e seg. add_segment seg e) e g) = st_word_count e"
  "st_text (foldl (\<lambda>e seg. add_segment seg e) e g) =
     st_text e @ concat (map (\<lambda>seg. strip (as_text seg) @ '' '') g)"
  "st_duration (foldl (\<lambda>e seg. add_segment seg e) e g) =
     st_duration e + sum_list (map (\<lambda>seg. max (as_end seg - as_start seg) 0) g)"
  "st_segments (foldl (\<lambda>e seg. add_segment seg e) e g) =
     map_option (\<lambda>segs. segs @ g) (st_segments e)"
proof (induction g arbitrary: e)
  case Nil
  {
    case 1 show ?case by simp
  next
    case 2 show ?case by simp
  next
    case 3 show ?case by simp
  next
    case 4 show ?case by simp
  next
    case 5 show ?case by simp
  next
    case 6 show ?case by (simp add: option.map_ident)
  }
next
  case (Cons seg g)
  {
    case 1 show ?case by (simp add: Cons add_segment_fields)
  next
    case 2 show ?case by (simp add: Cons add_segment_fields)
  next
    case 3 show ?case by (simp add: Cons add_segment_fields)
  next
    case 4 show ?case by (simp add: Cons add_segment_fields)
  next
    case 5 show ?case by (simp add: Cons add_segment_fields)
  next
    case 6 show ?case by (simp add: Cons add_segment_fields option.map_comp comp_def)
  }
qed

lemma values_from_keys:
  "distinct (map fst xs) \<Longrightarrow> (\<forall>k \<in> set (map fst xs). map_of xs k = Some (v k)) \<Longrightarrow>
     map snd xs = map v (map fst xs)"
proof (induction xs)
  case Nil
  show ?case by simp
next
  case (Cons p xs)
  obtain k e where p: "p = (k, e)" by (cases p)
  from Cons.prems have d: "distinct (map fst xs)" and nk: "k \<notin> set (map fst xs)"
    by (simp_all add: p)
  have "\<forall>k' \<in> set (map fst xs). map_of xs k' = Some (v k')"
  proof
    fix k' assume k': "k' \<in> set (map fst xs)"
    with nk have "k' \<noteq> k" by auto
    moreover have "k' \<in> set (map fst (p # xs))" using k' by simp
    with Cons.prems(2) have "map_of (p # xs) k' = Some (v k')" by (rule bspec)
    ultimately show "map_of xs k' = Some (v k')" by (simp add: p)
  qed
  with Cons.IH d have "map snd xs = map v (map fst xs)" by simp
  moreover have "k \<in> set (map fst (p # xs))" by (simp add: p)
  with Cons.prems(2) have "map_of (p # xs) k = Some (v k)" by (rule bspec)
  then have "e = v k" by (simp add: p)
  ultimately show ?case by (simp add: p)
qed

lemma aggregate_by_speaker_eq:
  "aggregate_by_speaker segs =
     map (\<lambda>k. folded_entry k segs) (first_appearance (map as_speaker segs))"
proof -
  let ?xs = "aggregate_loop [] segs"
  let ?v = "\<lambda>k. foldl (\<lambda>e seg. add_segment seg e) (new_entry k) (group_of k segs)"
  have keys: "map fst ?xs = first_appearance (map as_speaker segs)"
    by (simp add: keys_aggregate_loop)
  have d: "distinct (map fst ?xs)"
    by (simp only: keys distinct_first_appearance)
  have "\<forall>k \<in> set (map fst ?xs). map_of ?xs k = Some (?v k)"
    by (simp add: keys set_first_appearance values_aggregate_loop entry0_def)
  with d have "map snd ?xs = map ?v (map fst ?xs)"
    by (rule values_from_keys)
  then have "map normalize_entry (map snd ?xs) = map normalize_entry (map ?v (map fst ?xs))"
    by simp
  moreover have "aggregate_by_speaker segs = map normalize_entry (map snd ?xs)"
    by (simp add: aggregate_by_speaker_def case_prod_unfold)
  ultimately show ?thesis
    by (simp add: keys folded_entry_def)
qed

lemma folded_entry_fields:
  "st_speaker (folded_entry k segs) = k"
  "st_role (folded_entry k segs) = None"
  "st_segments (folded_entry k segs) = Some (group_of k segs)"
  "st_duration (folded_entry k segs) =
     sum_list (map (\<lambda>seg. max (as_end seg - as_start seg) 0) (group_of k segs))"
  "st_text (folded_entry k segs) =
     strip (join '' '' (map (\<lambda>seg. strip (as_text seg)) (group_of k segs)))"
  "st_word_count (folded_entry k segs) = int (length (split (st_text (folded_entry k segs))))"
proof -
  show "st_speaker (folded_entry k segs) = k"
    by (simp add: folded_entry_def normalize_entry_def Let_def foldl_add_segment new_entry_def)
  show "st_role (folded_entry k segs) = None"
    by (simp add: folded_entry_def normalize_entry_def Let_def foldl_add_segment new_entry_def)
  show "st_segments (folded_entry k segs) = Some (group_of k segs)"
    by (simp add: folded_entry_def normalize_entry_def Let_def foldl_add_segment new_entry_def)
  show "st_duration (folded_entry k segs) =
     sum_list (map (\<lambda>seg. max (as_end seg - as_start seg) 0) (group_of k segs))"
    by (simp add: folded_entry_def normalize_entry_def Let_def foldl_add_segment new_entry_def)
  have "concat (map (\<lambda>seg. strip (as_text seg) @ '' '') (group_of k segs)) =
      concat (map (\<lambda>x. x @ '' '') (map (\<lambda>seg. strip (as_text seg)) (group_of k segs)))"
    by (simp add: comp_def)
  then show "st_text (folded_entry k segs) =
     strip (join '' '' (map (\<lambda>seg. strip (as_text seg)) (group_of k segs)))"
    by (simp add: folded_entry_def normalize_entry_def Let_def foldl_add_segment new_entry_def
        strip_concat_fragments del: map_map)
  show "st_word_count (folded_entry k segs) = int (length (split (st_text (folded_entry k segs))))"
    by (simp add: folded_entry_def normalize_entry_def Let_def)
qed

lemma sum_list_max_nonneg:
  "0 \<le> sum_list (map (\<lambda>seg. max (as_end seg - as_start seg) (0::rat)) g)"
  by (rule sum_list_nonneg) auto

text \<open>
  Claim C6 (amended in the text only). The aggregator returns one entry per distinct
  speaker label, in the order in which the labels first appear. The text of an entry is
  the trimmed text of every segment of its group (the empty ones too), joined by one
  space and then trimmed; when no segment of the group has an empty trimmed text this is
  the text of the non-empty fragments joined by one space. The duration is the sum of
  max(end - start, 0) over the group and is never negative, the word count is the number
  of whitespace-separated tokens of the final text, the entry keeps the segments of its
  group and carries no role.
\<close>

theorem aggregate_by_speaker_spec:
  "map st_speaker (aggregate_by_speaker segs) = first_appearance (map as_speaker segs) \<and>
   (\<forall>e \<in> set (aggregate_by_speaker segs).
      st_text e =
        strip (join '' '' (map (\<lambda>seg. strip (as_text seg)) (group_of (st_speaker e) segs))) \<and>
      ((\<forall>seg \<in> set (group_of (st_speaker e) segs). strip (as_text seg) \<noteq> []) \<longrightarrow>
         st_text e = spec_group_text (group_of (st_speaker e) segs)) \<and>
      st_duration e =
        sum_list (map (\<lambda>seg. max (as_end seg - as_start seg) 0) (group_of (st_speaker e) segs)) \<and>
      0 \<le> st_duration e \<and>
      st_word_count e = int (length (split (st_text e))) \<and>
      st_segments e = Some (group_of (st_speaker e) segs) \<and>
      st_role e = None)"
proof (intro conjI ballI)
  show "map st_speaker (aggregate_by_speaker segs) = first_appearance (map as_speaker segs)"
    by (simp add: aggregate_by_speaker_eq comp_def folded_entry_fields)
next
  fix e assume "e \<in> set (aggregate_by_speaker segs)"
  then obtain k where e: "e = folded_entry k segs"
    by (auto simp: aggregate_by_speaker_eq)
  have k: "st_speaker e = k"
    by (simp add: e folded_entry_fields)
  show tx: "st_text e =
      strip (join '' '' (map (\<lambda>seg. strip (as_text seg)) (group_of (st_speaker e) segs)))"
    unfolding k unfolding e by (rule folded_entry_fields)
  show "(\<forall>seg \<in> set (group_of (st_speaker e) segs). strip (as_text seg) \<noteq> []) \<longrightarrow>
      st_text e = spec_group_text (group_of (st_speaker e) segs)"
  proof
    assume "\<forall>seg \<in> set (group_of (st_speaker e) segs). strip (as_text seg) \<noteq> []"
    then have "filter (\<lambda>t. t \<noteq> []) (map (\<lambda>seg. strip (as_text seg)) (group_of (st_speaker e) segs))
        = map (\<lambda>seg. strip (as_text seg)) (group_of (st_speaker e) segs)"
      by (simp add: filter_id_conv)
    then show "st_text e = spec_group_text (group_of (st_speaker e) segs)"
      by (simp only: tx spec_group_text_def)
  qed
  show dur: "st_duration e =
      sum_list (map (\<lambda>seg. max (as_end seg - as_start seg) 0) (group_of (st_speaker e) segs))"
    unfolding k unfolding e by (rule folded_entry_fields)
  show "0 \<le> st_duration e"
    unfolding dur by (rule sum_list_max_nonneg)
  show "st_word_count e = int (length (split (st_text e)))"
    unfolding e by (rule folded_entry_fields)
  show "st_segments e = Some (group_of (st_speaker e) segs)"
    unfolding k unfolding e by (rule folded_entry_fields)
  show "st_role e = None"
    unfolding e by (rule folded_entry_fields)
qed

text \<open>
  The text as the claim words it (non-empty fragments only) is not what the code builds:
  a segment with an empty text between two others leaves two spaces in the text.
\<close>

theorem aggregate_text_counterexample:
  "map st_text (aggregate_by_speaker
     [\<lparr>as_speaker = ''speaker_1'', as_start = 0, as_end = 1, as_text = ''si'', as_confidence = 1/2\<rparr>,
      \<lparr>as_speaker = ''speaker_1'', as_start = 1, as_end = 2, as_text = [], as_confidence = 1/2\<rparr>,
      \<lparr>as_speaker = ''speaker_1'', as_start = 2, as_end = 3, as_text = ''no'', as_confidence = 1/2\<rparr>])
     = [''si  no''] \<and>
   spec_group_text
     [\<lparr>as_speaker = ''speaker_1'', as_start = 0, as_end = 1, as_text = ''si'', as_confidence = 1/2\<rparr>,
      \<lparr>as_speaker = ''speaker_1'', as_start = 1, as_end = 2, as_text = [], as_confidence = 1/2\<rparr>,
      \<lparr>as_speaker = ''speaker_1'', as_start = 2, as_end = 3, as_text = ''no'', as_confidence = 1/2\<rparr>]
     = ''si no''"
  by (simp add: aggregate_by_speaker_def normalize_entry_def add_segment_def new_entry_def
      spec_group_text_def strip_def is_space_def Let_def)

theorem aggregate_by_speaker_spec_witness:
  "\<lparr>st_speaker = ''speaker_1'', st_role = None, st_text = ''hola buenos dias'',
     st_duration = 1,
     st_segments = Some
       [\<lparr>as_speaker = ''speaker_1'', as_start = 0, as_end = 1, as_text = '' hola '', as_confidence = 1/2\<rparr>,
        \<lparr>as_speaker = ''speaker_1'', as_start = 5, as_end = 4, as_text = ''buenos dias'', as_confidence = 3/10\<rparr>],
     st_word_count = 3\<rparr>
   \<in> set (aggregate_by_speaker
     [\<lparr>as_speaker = ''speaker_1'', as_start = 0, as_end = 1, as_text = '' hola '', as_confidence = 1/2\<rparr>,
      \<lparr>as_speaker = ''speaker_2'', as_start = 1, as_end = 3, as_text = ''no puedo'', as_confidence = 1/2\<rparr>,
      \<lparr>as_speaker = ''speaker_1'', as_start = 5, as_end = 4, as_text = ''buenos dias'', as_confidence = 3/10\<rparr>]) \<and>
   list_all (\<lambda>seg. strip (as_text seg) \<noteq> [])
     (group_of ''speaker_1''
       [\<lparr>as_speaker = ''speaker_1'', as_start = 0, as_end = 1, as_text = '' hola '', as_confidence = 1/2\<rparr>,
        \<lparr>as_speaker = ''speaker_2'', as_start = 1, as_end = 3, as_text = ''no puedo'', as_confidence = 1/2\<rparr>,
        \<lparr>as_speaker = ''speaker_1'', as_start = 5, as_end = 4, as_text = ''buenos dias'', as_confidence = 3/10\<rparr>]) \<and>
   spec_group_text
     (group_of ''speaker_1''
       [\<lparr>as_speaker = ''speaker_1'', as_start = 0, as_end = 1, as_text = '' hola '', as_confidence = 1/2\<rparr>,
        \<lparr>as_speaker = ''speaker_2'', as_start = 1, as_end = 3, as_text = ''no puedo'', as_confidence = 1/2\<rparr>,
        \<lparr>as_speaker = ''speaker_1'', as_start = 5, as_end = 4, as_text = ''buenos dias'', as_confidence = 3/10\<rparr>])
     = ''hola buenos dias'' \<and>
   int (length (split ''hola buenos dias'')) = 3"
proof -
  let ?X = "[\<lparr>as_speaker = ''speaker_1'', as_start = 0, as_end = 1, as_text = '' hola '', as_confidence = 1/2\<rparr>,
      \<lparr>as_speaker = ''speaker_2'', as_start = 1, as_end = 3, as_text = ''no puedo'', as_confidence = 1/2\<rparr>,
      \<lparr>as_speaker = ''speaker_1'', as_start = 5, as_end = 4, as_text = ''buenos dias'', as_confidence = 3/10\<rparr>]"
  let ?E = "\<lparr>st_speaker = ''speaker_1'', st_role = None, st_text = ''hola buenos dias'',
     st_duration = 1,
     st_segments = Some
       [\<lparr>as_speaker = ''speaker_1'', as_start = 0, as_end = 1, as_text = '' hola '', as_confidence = 1/2\<rparr>,
        \<lparr>as_speaker = ''speaker_1'', as_start = 5, as_end = 4, as_text = ''buenos dias'', as_confidence = 3/10\<rparr>],
     st_word_count = 3\<rparr>"
  have mem: "?E \<in> set (aggregate_by_speaker ?X)"
    by (simp add: aggregate_by_speaker_def normalize_entry_def add_segment_def new_entry_def
        strip_def is_space_def split_def Let_def)
  have hyp: "list_all (\<lambda>seg. strip (as_text seg) \<noteq> []) (group_of ''speaker_1'' ?X)"
    by (simp add: group_of_def strip_def is_space_def)
  note spec = aggregate_by_speaker_spec [of ?X, THEN conjunct2, THEN bspec, OF mem]
  from spec [THEN conjunct2, THEN conjunct1]
  have imp: "(\<forall>seg \<in> set (group_of ''speaker_1'' ?X). strip (as_text seg) \<noteq> []) \<longrightarrow>
      ''hola buenos dias'' = spec_group_text (group_of ''speaker_1'' ?X)"
    by (simp only: SpeakerTranscript.select_convs)
  from hyp have "\<forall>seg \<in> set (group_of ''speaker_1'' ?X). strip (as_text seg) \<noteq> []"
    by (simp only: list_all_iff)
  with imp have c1: "spec_group_text (group_of ''speaker_1'' ?X) = ''hola buenos dias''"
    by simp
  from spec [THEN conjunct2, THEN conjunct2, THEN conjunct2, THEN conjunct2, THEN conjunct1]
  have "3 = int (length (split ''hola buenos dias''))"
    by (simp only: SpeakerTranscript.select_convs)
  then have c2: "int (length (split ''hola buenos dias'')) = 3"
    by (rule sym)
  from mem hyp c1 c2 show ?thesis by (intro conjI)
qed

subsection \<open>RoleInferencer\<close>
















subsection \<open>EnergyDiarizer\<close>

lemma build_segment_spec:
  "build_segment s l hop sr k = spec_segment hop sr (k, (s, l))"
  by (simp add: build_segment_def spec_segment_def even_iff_mod_2_eq_zero)

lemma scan_step_open:
  "\<not> active st \<Longrightarrow> threshold \<le> e \<Longrightarrow>
     scan_step threshold hop sr st i e =
       st \<lparr> active := True, start_frame := i, last_active_frame := i \<rparr>"
  by (simp add: scan_step_def Let_def)

lemma scan_step_idle:
  "\<not> active st \<Longrightarrow> e < threshold \<Longrightarrow> scan_step threshold hop sr st i e = st"
  by (simp add: scan_step_def Let_def)

lemma scan_step_extend:
  "active st \<Longrightarrow> threshold \<le> e \<Longrightarrow>
     scan_step threshold hop sr st i e = st \<lparr> last_active_frame := i \<rparr>"
  by (simp add: scan_step_def Let_def)

lemma scan_step_close:
  "active st \<Longrightarrow> e < threshold \<Longrightarrow>
     scan_step threshold hop sr st i e =
       st \<lparr> segments := segments st @
                [spec_segment hop sr (length (segments st), (start_frame st, last_active_frame st))],
            active := False \<rparr>"
  by (simp add: scan_step_def Let_def build_segment_spec)

lemma scan_loop_runs:
  "(\<not> active st \<longrightarrow>
      finish_scan hop sr (scan_loop threshold hop sr st i es) =
        segments st @
        map (spec_segment hop sr) (enumerate (length (segments st)) (voiced_runs threshold i es))) \<and>
   (active st \<and> last_active_frame st + 1 = i \<longrightarrow>
      finish_scan hop sr (scan_loop threshold hop sr st i es) =
        segments st @
        spec_segment hop sr
          (length (segments st),
           (start_frame st, last_active_frame st + length (takeWhile (\<lambda>x. x \<ge> threshold) es))) #
        map (spec_segment hop sr)
          (enumerate (Suc (length (segments st)))
             (voiced_runs threshold (i + length (takeWhile (\<lambda>x. x \<ge> threshold) es))
                (dropWhile (\<lambda>x. x \<ge> threshold) es))))"
proof (induction es arbitrary: st i)
  case Nil
  show ?case
    by (simp add: finish_scan_def build_segment_spec)
next
  case (Cons e es)
  let ?n = "length (takeWhile (\<lambda>x. x \<ge> threshold) es)"
  show ?case
  proof (intro conjI impI)
    assume idle: "\<not> active st"
    show "finish_scan hop sr (scan_loop threshold hop sr st i (e # es)) =
        segments st @
        map (spec_segment hop sr)
          (enumerate (length (segments st)) (voiced_runs threshold i (e # es)))"
    proof (cases "threshold \<le> e")
      case True
      let ?st = "st \<lparr> active := True, start_frame := i, last_active_frame := i \<rparr>"
      have "active ?st \<and> last_active_frame ?st + 1 = Suc i" by simp
      with Cons.IH [of ?st "Suc i"]
      have "finish_scan hop sr (scan_loop threshold hop sr ?st (Suc i) es) =
          segments ?st @
          spec_segment hop sr (length (segments ?st), (start_frame ?st, last_active_frame ?st + ?n)) #
          map (spec_segment hop sr)
            (enumerate (Suc (length (segments ?st)))
               (voiced_runs threshold (Suc i + ?n) (dropWhile (\<lambda>x. x \<ge> threshold) es)))"
        by blast
      with True idle show ?thesis
        by (simp add: scan_step_open)
    next
      case False
      then have lt: "e < threshold" by simp
      from Cons.IH [of st "Suc i"] idle
      have "finish_scan hop sr (scan_loop threshold hop sr st (Suc i) es) =
          segments st @
          map (spec_segment hop sr)
            (enumerate (length (segments st)) (voiced_runs threshold (Suc i) es))"
        by blast
      with False lt idle show ?thesis
        by (simp add: scan_step_idle)
    qed
  next
    assume act: "active st \<and> last_active_frame st + 1 = i"
    then have a: "active st" and l: "last_active_frame st + 1 = i" by simp_all
    show "finish_scan hop sr (scan_loop threshold hop sr st i (e # es)) =
        segments st @
        spec_segment hop sr
          (length (segments st),
           (start_frame st,
            last_active_frame st + length (takeWhile (\<lambda>x. x \<ge> threshold) (e # es)))) #
        map (spec_segment hop sr)
          (enumerate (Suc (length (segments st)))
             (voiced_runs threshold
                (i + length (takeWhile (\<lambda>x. x \<ge> threshold) (e # es)))
                (dropWhile (\<lambda>x. x \<ge> threshold) (e # es))))"
    proof (cases "threshold \<le> e")
      case True
      let ?st = "st \<lparr> last_active_frame := i \<rparr>"
      have "active ?st \<and> last_active_frame ?st + 1 = Suc i" using a by simp
      with Cons.IH [of ?st "Suc i"]
      have "finish_scan hop sr (scan_loop threshold hop sr ?st (Suc i) es) =
          segments ?st @
          spec_segment hop sr (length (segments ?st), (start_frame ?st, last_active_frame ?st + ?n)) #
          map (spec_segment hop sr)
            (enumerate (Suc (length (segments ?st)))
               (voiced_runs threshold (Suc i + ?n) (dropWhile (\<lambda>x. x \<ge> threshold) es)))"
        by blast
      with True a l show ?thesis
        by (auto simp: scan_step_extend)
    next
      case False
      then have lt: "e < threshold" by simp
      let ?st = "st \<lparr> segments := segments st @
                [spec_segment hop sr (length (segments st), (start_frame st, last_active_frame st))],
            active := False \<rparr>"
      have "\<not> active ?st" by simp
      with Cons.IH [of ?st "Suc i"]
      have "finish_scan hop sr (scan_loop threshold hop sr ?st (Suc i) es) =
          segments ?st @
          map (spec_segment hop sr)
            (enumerate (length (segments ?st)) (voiced_runs threshold (Suc i) es))"
        by blast
      with False lt a l show ?thesis
        by (simp add: scan_step_close)
    qed
  qed
qed

lemma scan_segments_runs:
  "scan_segments threshold hop sr frames =
     map (spec_segment hop sr) (enumerate 0 (voiced_runs threshold 0 frames))"
  using scan_loop_runs
    [of "\<lparr> segments = [], active = False, start_frame = 0, last_active_frame = 0 \<rparr>"
        hop sr threshold 0 frames]
  by (simp add: scan_segments_def)

lemma voiced_runs_silent:
  "\<forall>e \<in> set es. e < threshold \<Longrightarrow> voiced_runs threshold i es = []"
  by (induction es arbitrary: i) auto

lemma spec_segment_fields:
  "ds_speaker (spec_segment hop sr (k, r)) = (if even k then ''speaker_1'' else ''speaker_2'')"
  "ds_confidence (spec_segment hop sr (k, r)) = 1/2"
  by (cases r, simp add: spec_segment_def)+

lemma scan_segments_nth:
  assumes "k < length (scan_segments threshold hop sr frames)"
  shows "scan_segments threshold hop sr frames ! k =
           spec_segment hop sr (k, voiced_runs threshold 0 frames ! k)"
  using assms by (simp add: scan_segments_runs nth_enumerate_eq)

lemma scan_segments_confidence:
  "\<forall>s \<in> set (scan_segments threshold hop sr frames). ds_confidence s = 1/2"
proof
  fix s assume "s \<in> set (scan_segments threshold hop sr frames)"
  then obtain p where "s = spec_segment hop sr p"
    by (auto simp: scan_segments_runs)
  then show "ds_confidence s = 1/2"
    by (cases p) (simp add: spec_segment_fields)
qed

lemma np_max_nonempty: "rms \<noteq> [] \<Longrightarrow> \<exists>m. np_max rms = Inr m"
  by (cases rms) (simp_all add: np_max_def)

lemma diarize_loaded:
  assumes "load_rms audio_path (frame_length_of d) (hop_length_of d) = Inr (y_len, rms)"
    and "np_max rms = Inr m"
  shows "diarize load_rms d audio_path =
     Inr (if scan_segments (threshold_of d (normalized m rms)) (hop_length_of d) 16000
               (normalized m rms) = []
          then [fallback_segment y_len]
          else scan_segments (threshold_of d (normalized m rms)) (hop_length_of d) 16000
                 (normalized m rms))"
  by (simp add: diarize_def assms Let_def)

lemma takeWhile_run_parts:
  fixes es :: "rat list" and threshold :: rat
  shows "length es = length (takeWhile (\<lambda>x. x \<ge> threshold) es) +
           length (dropWhile (\<lambda>x. x \<ge> threshold) es)"
    and "\<And>k. k < length (takeWhile (\<lambda>x. x \<ge> threshold) es) \<Longrightarrow> es ! k \<ge> threshold"
    and "\<And>k. length (takeWhile (\<lambda>x. x \<ge> threshold) es) \<le> k \<Longrightarrow>
           es ! k = dropWhile (\<lambda>x. x \<ge> threshold) es !
             (k - length (takeWhile (\<lambda>x. x \<ge> threshold) es))"
    and "dropWhile (\<lambda>x. x \<ge> threshold) es \<noteq> [] \<Longrightarrow>
           dropWhile (\<lambda>x. x \<ge> threshold) es ! 0 < threshold"
proof -
  let ?P = "\<lambda>x. x \<ge> threshold"
  let ?n = "length (takeWhile ?P es)"
  have "length (takeWhile ?P es @ dropWhile ?P es) = ?n + length (dropWhile ?P es)"
    by (rule length_append)
  then show "length es = ?n + length (dropWhile ?P es)"
    by (simp only: takeWhile_dropWhile_id)
  show "\<And>k. k < ?n \<Longrightarrow> es ! k \<ge> threshold"
  proof -
    fix k assume k: "k < ?n"
    then have "takeWhile ?P es ! k \<in> set (takeWhile ?P es)" by simp
    then have "?P (takeWhile ?P es ! k)" by (rule set_takeWhileD [THEN conjunct2])
    moreover have "takeWhile ?P es ! k = es ! k" using k by (rule takeWhile_nth)
    ultimately show "es ! k \<ge> threshold" by simp
  qed
  show "\<And>k. ?n \<le> k \<Longrightarrow> es ! k = dropWhile ?P es ! (k - ?n)"
  proof -
    fix k assume "?n \<le> k"
    then have "\<not> k < ?n" by simp
    with nth_append [of "takeWhile ?P es" "dropWhile ?P es" k]
    have "(takeWhile ?P es @ dropWhile ?P es) ! k = dropWhile ?P es ! (k - ?n)"
      by (simp only: if_False)
    then show "es ! k = dropWhile ?P es ! (k - ?n)"
      by (simp only: takeWhile_dropWhile_id)
  qed
  show "dropWhile ?P es \<noteq> [] \<Longrightarrow> dropWhile ?P es ! 0 < threshold"
  proof -
    assume ne: "dropWhile ?P es \<noteq> []"
    then have "\<not> ?P (hd (dropWhile ?P es))" by (rule hd_dropWhile)
    with ne show "dropWhile ?P es ! 0 < threshold" by (simp add: hd_conv_nth)
  qed
qed

lemma voiced_runs_cover:
  "(\<exists>r \<in> set (voiced_runs threshold i es). fst r \<le> j \<and> j \<le> snd r) \<longleftrightarrow>
   (i \<le> j \<and> j < i + length es \<and> es ! (j - i) \<ge> threshold)"
proof (induction threshold i es arbitrary: j rule: voiced_runs.induct)
  case (1 threshold i)
  show ?case by simp
next
  case (2 threshold i e es)
  let ?P = "\<lambda>x. x \<ge> threshold"
  let ?n = "length (takeWhile ?P es)"
  let ?rest = "dropWhile ?P es"
  note parts = takeWhile_run_parts [where es = es and threshold = threshold]
  show ?case
  proof (cases "threshold \<le> e")
    case True
    from "2.IH"(1) [OF True]
    have IH: "(\<exists>r \<in> set (voiced_runs threshold (i + ?n + 1) ?rest). fst r \<le> j \<and> j \<le> snd r) \<longleftrightarrow>
        (i + ?n + 1 \<le> j \<and> j < i + ?n + 1 + length ?rest \<and> ?rest ! (j - (i + ?n + 1)) \<ge> threshold)"
      by simp
    have runs: "voiced_runs threshold i (e # es) =
        (i, i + ?n) # voiced_runs threshold (i + ?n + 1) ?rest"
      using True by simp
    have rhs: "(i \<le> j \<and> j < i + length (e # es) \<and> (e # es) ! (j - i) \<ge> threshold) \<longleftrightarrow>
        (i \<le> j \<and> j \<le> i + ?n) \<or>
        (i + ?n + 1 \<le> j \<and> j < i + ?n + 1 + length ?rest \<and> ?rest ! (j - (i + ?n + 1)) \<ge> threshold)"
    proof (cases "j < i")
      case True
      then show ?thesis by simp
    next
      case False
      then have ij: "i \<le> j" by simp
      show ?thesis
      proof (cases "j \<le> i + ?n")
        case le: True
        have len: "j < i + length (e # es)" using le parts(1) by simp
        have "(e # es) ! (j - i) \<ge> threshold"
        proof (cases "j = i")
          case True
          then show ?thesis using \<open>threshold \<le> e\<close> by simp
        next
          case False
          with ij have "j - i = Suc (j - i - 1)" by simp
          then have "(e # es) ! (j - i) = es ! (j - i - 1)" by (metis nth_Cons_Suc)
          moreover have "j - i - 1 < ?n" using False ij le by simp
          ultimately show ?thesis using parts(2) by simp
        qed
        with ij le len show ?thesis by simp
      next
        case gt: False
        then have g: "i + ?n + 1 \<le> j" by simp
        then have "j - i = Suc (j - i - 1)" by simp
        then have a: "(e # es) ! (j - i) = es ! (j - i - 1)" by (metis nth_Cons_Suc)
        have "?n \<le> j - i - 1" using g by simp
        from parts(3) [OF this] have b: "es ! (j - i - 1) = ?rest ! (j - i - 1 - ?n)" .
        have c: "j - i - 1 - ?n = j - (i + ?n + 1)" by simp
        have d: "i + length (e # es) = i + ?n + 1 + length ?rest" using parts(1) by simp
        show ?thesis
          using gt g ij by (simp only: a b c d) auto
      qed
    qed
    show ?thesis
      unfolding rhs runs using IH by auto
  next
    case False
    from "2.IH"(2) [OF False]
    have IH: "(\<exists>r \<in> set (voiced_runs threshold (Suc i) es). fst r \<le> j \<and> j \<le> snd r) \<longleftrightarrow>
        (Suc i \<le> j \<and> j < Suc i + length es \<and> es ! (j - Suc i) \<ge> threshold)"
      by simp
    have runs: "voiced_runs threshold i (e # es) = voiced_runs threshold (Suc i) es"
      using False by simp
    have "(i \<le> j \<and> j < i + length (e # es) \<and> (e # es) ! (j - i) \<ge> threshold) \<longleftrightarrow>
        (Suc i \<le> j \<and> j < Suc i + length es \<and> es ! (j - Suc i) \<ge> threshold)"
    proof (cases "j \<le> i")
      case True
      then show ?thesis using False by (cases "j = i") auto
    next
      case gt: False
      then have "j - i = Suc (j - Suc i)" by simp
      then have "(e # es) ! (j - i) = es ! (j - Suc i)" by (metis nth_Cons_Suc)
      with gt show ?thesis by auto
    qed
    then show ?thesis unfolding runs using IH by simp
  qed
qed

lemma voiced_runs_ordered:
  "\<forall>r \<in> set (voiced_runs threshold i es). fst r \<le> snd r"
  by (induction threshold i es rule: voiced_runs.induct) auto

lemma voiced_runs_start:
  assumes "r \<in> set (voiced_runs threshold i es)"
  shows "i \<le> fst r \<and> fst r < i + length es \<and> es ! (fst r - i) \<ge> threshold"
proof -
  from assms voiced_runs_ordered have "fst r \<le> fst r \<and> fst r \<le> snd r" by auto
  with assms have "\<exists>r' \<in> set (voiced_runs threshold i es). fst r' \<le> fst r \<and> fst r \<le> snd r'"
    by blast
  then show ?thesis by (simp only: voiced_runs_cover)
qed

lemma voiced_runs_separated:
  "sorted_wrt (\<lambda>r s. snd r + 1 < fst s) (voiced_runs threshold i es)"
proof (induction threshold i es rule: voiced_runs.induct)
  case (1 threshold i)
  show ?case by simp
next
  case (2 threshold i e es)
  let ?P = "\<lambda>x. x \<ge> threshold"
  let ?n = "length (takeWhile ?P es)"
  let ?rest = "dropWhile ?P es"
  show ?case
  proof (cases "threshold \<le> e")
    case True
    have "\<forall>s \<in> set (voiced_runs threshold (i + ?n + 1) ?rest). i + ?n + 1 < fst s"
    proof
      fix s assume s: "s \<in> set (voiced_runs threshold (i + ?n + 1) ?rest)"
      from voiced_runs_start [OF s]
      have b: "i + ?n + 1 \<le> fst s" "fst s < i + ?n + 1 + length ?rest"
        and v: "?rest ! (fst s - (i + ?n + 1)) \<ge> threshold" by simp_all
      from b have "0 < length ?rest" by linarith
      then have ne: "?rest \<noteq> []" by (rule length_greater_0_conv [THEN iffD1])
      have "fst s \<noteq> i + ?n + 1"
      proof
        assume "fst s = i + ?n + 1"
        with v have "?rest ! 0 \<ge> threshold" by simp
        moreover from takeWhile_run_parts(4) [OF ne] have "?rest ! 0 < threshold" .
        ultimately show False by simp
      qed
      with b(1) show "i + ?n + 1 < fst s" by simp
    qed
    with True "2.IH"(1) [OF True] show ?thesis by simp
  next
    case False
    with "2.IH"(2) [OF False] show ?thesis by simp
  qed
qed

text \<open>
  Claim C3. The segments the scan emits are the ones of the two-state machine: one
  segment per maximal run of consecutive frames at or above the threshold, in order,
  from the first frame of the run to the frame after its last one, converted to seconds
  with the hop length and the sample rate; a run that reaches the end of the stream is
  closed there. The k-th emitted segment (counting from 0) is labelled "speaker\_1" when
  k is even and "speaker\_2" when k is odd. The runs are maximal: a frame lies in a run
  exactly when it is at or above the threshold, and between two runs there is at least
  one frame. \<open>diarize\<close> returns these segments for the normalized energies of the clip
  and their threshold whenever there is at least one.
\<close>

theorem diarize_scan_spec:
  "scan_segments threshold hop sr frames =
     map (spec_segment hop sr) (enumerate 0 (voiced_runs threshold 0 frames)) \<and>
   (\<forall>k < length (scan_segments threshold hop sr frames).
      ds_speaker (scan_segments threshold hop sr frames ! k) =
        (if even k then ''speaker_1'' else ''speaker_2'')) \<and>
   (\<forall>j. (\<exists>r \<in> set (voiced_runs threshold 0 frames). fst r \<le> j \<and> j \<le> snd r) \<longleftrightarrow>
        (j < length frames \<and> frames ! j \<ge> threshold)) \<and>
   (\<forall>r \<in> set (voiced_runs threshold 0 frames). fst r \<le> snd r) \<and>
   sorted_wrt (\<lambda>r s. snd r + 1 < fst s) (voiced_runs threshold 0 frames) \<and>
   (load_rms audio_path (frame_length_of d) (hop_length_of d) = Inr (y_len, rms) \<and>
    np_max rms = Inr m \<and>
    voiced_runs (threshold_of d (normalized m rms)) 0 (normalized m rms) \<noteq> [] \<longrightarrow>
      diarize load_rms d audio_path =
        Inr (map (spec_segment (hop_length_of d) 16000)
               (enumerate 0
                  (voiced_runs (threshold_of d (normalized m rms)) 0 (normalized m rms)))))"
proof -
  have c1: "scan_segments threshold hop sr frames =
     map (spec_segment hop sr) (enumerate 0 (voiced_runs threshold 0 frames))"
    by (rule scan_segments_runs)
  have c2: "\<forall>k < length (scan_segments threshold hop sr frames).
      ds_speaker (scan_segments threshold hop sr frames ! k) =
        (if even k then ''speaker_1'' else ''speaker_2'')"
  proof (intro allI impI)
    fix k assume "k < length (scan_segments threshold hop sr frames)"
    then show "ds_speaker (scan_segments threshold hop sr frames ! k) =
        (if even k then ''speaker_1'' else ''speaker_2'')"
      by (simp only: scan_segments_nth spec_segment_fields)
  qed
  have c3: "\<forall>j. (\<exists>r \<in> set (voiced_runs threshold 0 frames). fst r \<le> j \<and> j \<le> snd r) \<longleftrightarrow>
        (j < length frames \<and> frames ! j \<ge> threshold)"
    by (simp add: voiced_runs_cover)
  have c4: "\<forall>r \<in> set (voiced_runs threshold 0 frames). fst r \<le> snd r"
    by (rule voiced_runs_ordered)
  have c5: "sorted_wrt (\<lambda>r s. snd r + 1 < fst s) (voiced_runs threshold 0 frames)"
    by (rule voiced_runs_separated)
  have c6: "load_rms audio_path (frame_length_of d) (hop_length_of d) = Inr (y_len, rms) \<and>
    np_max rms = Inr m \<and>
    voiced_runs (threshold_of d (normalized m rms)) 0 (normalized m rms) \<noteq> [] \<longrightarrow>
      diarize load_rms d audio_path =
        Inr (map (spec_segment (hop_length_of d) 16000)
               (enumerate 0
                  (voiced_runs (threshold_of d (normalized m rms)) 0 (normalized m rms))))"
  proof
    assume h: "load_rms audio_path (frame_length_of d) (hop_length_of d) = Inr (y_len, rms) \<and>
      np_max rms = Inr m \<and>
      voiced_runs (threshold_of d (normalized m rms)) 0 (normalized m rms) \<noteq> []"
    then have ne: "scan_segments (threshold_of d (normalized m rms)) (hop_length_of d) 16000
        (normalized m rms) \<noteq> []"
      by (simp add: scan_segments_runs enumerate_eq_zip)
    from h have "diarize load_rms d audio_path =
       Inr (if scan_segments (threshold_of d (normalized m rms)) (hop_length_of d) 16000
                 (normalized m rms) = []
            then [fallback_segment y_len]
            else scan_segments (threshold_of d (normalized m rms)) (hop_length_of d) 16000
                   (normalized m rms))"
      by (intro diarize_loaded) simp_all
    with ne show "diarize load_rms d audio_path =
          Inr (map (spec_segment (hop_length_of d) 16000)
                 (enumerate 0
                    (voiced_runs (threshold_of d (normalized m rms)) 0 (normalized m rms))))"
      by (simp only: if_False scan_segments_runs)
  qed
  from c1 c2 c3 c4 c5 c6 show ?thesis by (intro conjI)
qed

text \<open>
  Claim C4. When the clip has at least one frame and every normalized frame energy is
  below the threshold, \<open>diarize\<close> returns (it does not raise) exactly one segment, from 0
  to the duration of the clip, labelled "speaker\_1" with confidence 0.2. Every segment
  the scan emits has confidence 0.5, so every segment \<open>diarize\<close> returns other than that
  fallback has confidence 0.5.
\<close>

theorem diarize_silent_fallback:
  "(load_rms audio_path (frame_length_of d) (hop_length_of d) = Inr (y_len, rms) \<and>
    np_max rms = Inr m \<and>
    (\<forall>e \<in> set (normalized m rms). e < threshold_of d (normalized m rms)) \<longrightarrow>
      diarize load_rms d audio_path =
        Inr [\<lparr> ds_speaker = ''speaker_1'', ds_start = 0,
               ds_end = of_nat y_len / 16000, ds_confidence = 2/10 \<rparr>]) \<and>
   (rms \<noteq> [] \<longrightarrow> (\<exists>m'. np_max rms = Inr m')) \<and>
   (\<forall>s \<in> set (scan_segments threshold hop sr frames). ds_confidence s = 1/2) \<and>
   (load_rms audio_path (frame_length_of d) (hop_length_of d) = Inr (y_len, rms) \<and>
    diarize load_rms d audio_path = Inr segs \<longrightarrow>
      segs = [\<lparr> ds_speaker = ''speaker_1'', ds_start = 0,
                ds_end = of_nat y_len / 16000, ds_confidence = 2/10 \<rparr>] \<or>
      (\<forall>s \<in> set segs. ds_confidence s = 1/2))"
proof (intro conjI impI)
  assume h: "load_rms audio_path (frame_length_of d) (hop_length_of d) = Inr (y_len, rms) \<and>
    np_max rms = Inr m \<and>
    (\<forall>e \<in> set (normalized m rms). e < threshold_of d (normalized m rms))"
  then have "voiced_runs (threshold_of d (normalized m rms)) 0 (normalized m rms) = []"
    by (intro voiced_runs_silent) simp
  then have e: "scan_segments (threshold_of d (normalized m rms)) (hop_length_of d) 16000
      (normalized m rms) = []"
    by (simp add: scan_segments_runs)
  from h have "diarize load_rms d audio_path =
     Inr (if scan_segments (threshold_of d (normalized m rms)) (hop_length_of d) 16000
               (normalized m rms) = []
          then [fallback_segment y_len]
          else scan_segments (threshold_of d (normalized m rms)) (hop_length_of d) 16000
                 (normalized m rms))"
    by (intro diarize_loaded) simp_all
  then show "diarize load_rms d audio_path =
        Inr [\<lparr> ds_speaker = ''speaker_1'', ds_start = 0,
               ds_end = of_nat y_len / 16000, ds_confidence = 2/10 \<rparr>]"
    by (simp add: e fallback_segment_def)
next
  assume "rms \<noteq> []" then show "\<exists>m'. np_max rms = Inr m'"
    by (rule np_max_nonempty)
next
  show "\<forall>s \<in> set (scan_segments threshold hop sr frames). ds_confidence s = 1/2"
    by (rule scan_segments_confidence)
next
  assume h: "load_rms audio_path (frame_length_of d) (hop_length_of d) = Inr (y_len, rms) \<and>
    diarize load_rms d audio_path = Inr segs"
  show "segs = [\<lparr> ds_speaker = ''speaker_1'', ds_start = 0,
                ds_end = of_nat y_len / 16000, ds_confidence = 2/10 \<rparr>] \<or>
      (\<forall>s \<in> set segs. ds_confidence s = 1/2)"
  proof (cases "np_max rms")
    case (Inl e)
    from h have l: "load_rms audio_path (frame_length_of d) (hop_length_of d) = Inr (y_len, rms)"
      and r: "diarize load_rms d audio_path = Inr segs" by simp_all
    from r show ?thesis by (simp add: diarize_def l Inl)
  next
    case (Inr m)
    let ?scan = "scan_segments (threshold_of d (normalized m rms)) (hop_length_of d) 16000
                 (normalized m rms)"
    from h Inr have "diarize load_rms d audio_path =
        Inr (if ?scan = [] then [fallback_segment y_len] else ?scan)"
      by (intro diarize_loaded) simp_all
    with h have segs: "segs = (if ?scan = [] then [fallback_segment y_len] else ?scan)"
      by simp
    show ?thesis
    proof (cases "?scan = []")
      case True
      with segs show ?thesis by (simp add: fallback_segment_def)
    next
      case False
      with segs have "segs = ?scan" by simp
      then show ?thesis using scan_segments_confidence by blast
    qed
  qed
qed

theorem diarize_scan_spec_witness:
  "np_max [0, 1, 1, 0, 1] = Inr 1 \<and>
   voiced_runs (threshold_of default_diarizer (normalized 1 [0, 1, 1, 0, 1])) 0
     (normalized 1 [0, 1, 1, 0, 1]) = [(1, 2), (4, 4)] \<and>
   diarize (\<lambda>p fl hl. Inr (1024, [0, 1, 1, 0, 1])) default_diarizer ''llamada.wav'' =
     Inr [\<lparr> ds_speaker = ''speaker_1'', ds_start = 256 / 16000, ds_end = 768 / 16000,
             ds_confidence = 1/2 \<rparr>,
          \<lparr> ds_speaker = ''speaker_2'', ds_start = 1024 / 16000, ds_end = 1280 / 16000,
             ds_confidence = 1/2 \<rparr>]"
proof -
  let ?rms = "[0, 1, 1, 0, 1 :: rat]"
  let ?load = "\<lambda>(p::path) (fl::nat) (hl::nat). Inr (1024::nat, ?rms) :: error + nat \<times> rat list"
  have h1: "?load ''llamada.wav'' (frame_length_of default_diarizer)
      (hop_length_of default_diarizer) = Inr (1024, ?rms)"
    by simp
  have h2: "np_max ?rms = Inr 1"
    by (simp add: np_max_def)
  have h3: "voiced_runs (threshold_of default_diarizer (normalized 1 ?rms)) 0
      (normalized 1 ?rms) = [(1, 2), (4, 4)]"
    by code_simp
  then have h3': "voiced_runs (threshold_of default_diarizer (normalized 1 ?rms)) 0
      (normalized 1 ?rms) \<noteq> []"
    by simp
  have hop: "hop_length_of default_diarizer = 256"
    by (simp add: hop_length_of_def default_diarizer_def)
  from diarize_scan_spec
    [where load_rms = ?load and audio_path = "''llamada.wav''" and d = default_diarizer
       and y_len = 1024 and rms = ?rms and m = 1, THEN conjunct2, THEN conjunct2,
       THEN conjunct2, THEN conjunct2, THEN conjunct2]
    h1 h2 h3'
  have "diarize ?load default_diarizer ''llamada.wav'' =
      Inr (map (spec_segment (hop_length_of default_diarizer) 16000)
             (enumerate 0
                (voiced_runs (threshold_of default_diarizer (normalized 1 ?rms)) 0
                   (normalized 1 ?rms))))"
    by blast
  then have "diarize ?load default_diarizer ''llamada.wav'' =
     Inr [\<lparr> ds_speaker = ''speaker_1'', ds_start = 256 / 16000, ds_end = 768 / 16000,
             ds_confidence = 1/2 \<rparr>,
          \<lparr> ds_speaker = ''speaker_2'', ds_start = 1024 / 16000, ds_end = 1280 / 16000,
             ds_confidence = 1/2 \<rparr>]"
    unfolding h3 hop by (simp add: spec_segment_def)
  with h2 h3 show ?thesis by (intro conjI)
qed

theorem diarize_silent_fallback_witness:
  "np_max [0, 0, 0] = Inr 0 \<and>
   list_all (\<lambda>e. e < threshold_of default_diarizer (normalized 0 [0, 0, 0]))
     (normalized 0 [0, 0, 0]) \<and>
   diarize (\<lambda>p fl hl. Inr (32000, [0, 0, 0])) default_diarizer ''silencio.wav'' =
     Inr [\<lparr> ds_speaker = ''speaker_1'', ds_start = 0, ds_end = 2, ds_confidence = 2/10 \<rparr>]"
proof -
  let ?rms = "[0, 0, 0 :: rat]"
  let ?load = "\<lambda>(p::path) (fl::nat) (hl::nat). Inr (32000::nat, ?rms) :: error + nat \<times> rat list"
  have h1: "?load ''silencio.wav'' (frame_length_of default_diarizer)
      (hop_length_of default_diarizer) = Inr (32000, ?rms)"
    by simp
  have h2: "np_max ?rms = Inr 0"
    by (simp add: np_max_def)
  have h3: "list_all (\<lambda>e. e < threshold_of default_diarizer (normalized 0 ?rms))
      (normalized 0 ?rms)"
    by (simp add: threshold_of_def normalized_def np_mean_def default_diarizer_def)
  then have h3': "\<forall>e \<in> set (normalized 0 ?rms).
      e < threshold_of default_diarizer (normalized 0 ?rms)"
    by (simp only: list_all_iff)
  from diarize_silent_fallback
    [where load_rms = ?load and audio_path = "''silencio.wav''" and d = default_diarizer
       and y_len = 32000 and rms = ?rms and m = 0, THEN conjunct1]
    h1 h2 h3'
  have "diarize ?load default_diarizer ''silencio.wav'' =
      Inr [\<lparr> ds_speaker = ''speaker_1'', ds_start = 0,
             ds_end = of_nat 32000 / 16000, ds_confidence = 2/10 \<rparr>]"
    by blast
  then have "diarize ?load default_diarizer ''silencio.wav'' =
      Inr [\<lparr> ds_speaker = ''speaker_1'', ds_start = 0, ds_end = 2, ds_confidence = 2/10 \<rparr>]"
    by simp
  with h2 h3 show ?thesis by (intro conjI)
qed

subsection \<open>RoleAwareSentimentAggregator\<close>

lemma analyze_if_text_empty:
  "analyze_if_text an [] w = (Inr None, w)"
  by (simp add: analyze_if_text_def ret_def)

lemma analyze_if_text_nonempty:
  "t \<noteq> [] \<Longrightarrow> analyze_if_text an t w =
     (case an t of Inl e \<Rightarrow> (Inl e, emit (Analyze t) w)
      | Inr v \<Rightarrow> (Inr (Some v), emit (Analyze t) w))"
  by (simp add: analyze_if_text_def and_then_def analyze_text_def ret_def split: sum.splits)

lemma emit_calls: "calls (emit ev w) = calls w @ [ev]"
  by (simp add: emit_def)

lemma emit_as_update: "emit ev w = w \<lparr> calls := calls w @ [ev] \<rparr>"
  by (simp add: emit_def)

lemma sentiment_without_analyzer:
  "sentiment_for_roles None tbs combined w = (Inr None, w)"
  by (simp add: sentiment_for_roles_def ret_def)

lemma sentiment_calls:
  "\<exists>cs rest.
     snd (sentiment_for_roles (Some an) tbs combined w) = w \<lparr> calls := calls w @ cs \<rparr> \<and>
     cs @ rest = expected_calls tbs combined \<and>
     (\<forall>r. fst (sentiment_for_roles (Some an) tbs combined w) = Inr r \<longrightarrow> rest = [])"
proof -
  let ?op = "role_text ''operator'' tbs" and ?cl = "role_text ''client'' tbs"
  show ?thesis
  proof (cases "?op = []")
    case opE: True
    show ?thesis
    proof (cases "?cl = []")
      case clE: True
      show ?thesis
        by (rule exI [of _ "[Analyze combined]"], rule exI [of _ "[]"])
           (simp add: sentiment_for_roles_def Let_def opE clE analyze_if_text_empty
              and_then_def analyze_text_def ret_def expected_calls_def emit_as_update
              split: sum.splits)
    next
      case clN: False
      show ?thesis
      proof (cases "an ?cl")
        case (Inl e)
        show ?thesis
          by (rule exI [of _ "[Analyze ?cl]"], rule exI [of _ "[Analyze combined]"])
             (simp add: sentiment_for_roles_def Let_def opE clN Inl analyze_if_text_empty
                analyze_if_text_nonempty and_then_def expected_calls_def emit_as_update)
      next
        case (Inr v)
        show ?thesis
          by (rule exI [of _ "[Analyze ?cl, Analyze combined]"], rule exI [of _ "[]"])
             (simp add: sentiment_for_roles_def Let_def opE clN Inr analyze_if_text_empty
                analyze_if_text_nonempty and_then_def analyze_text_def ret_def
                expected_calls_def emit_as_update split: sum.splits)
      qed
    qed
  next
    case opN: False
    show ?thesis
    proof (cases "an ?op")
      case (Inl e)
      show ?thesis
        by (rule exI [of _ "[Analyze ?op]"],
            rule exI [of _ "(if ?cl \<noteq> [] then [Analyze ?cl] else []) @ [Analyze combined]"])
           (simp add: sentiment_for_roles_def Let_def opN Inl
              analyze_if_text_nonempty and_then_def expected_calls_def emit_as_update)
    next
      case opV: (Inr v)
      show ?thesis
      proof (cases "?cl = []")
        case clE: True
        show ?thesis
          by (rule exI [of _ "[Analyze ?op, Analyze combined]"], rule exI [of _ "[]"])
             (simp add: sentiment_for_roles_def Let_def opN opV clE analyze_if_text_empty
                analyze_if_text_nonempty and_then_def analyze_text_def ret_def
                expected_calls_def emit_as_update split: sum.splits)
      next
        case clN: False
        show ?thesis
        proof (cases "an ?cl")
          case (Inl e)
          show ?thesis
            by (rule exI [of _ "[Analyze ?op, Analyze ?cl]"], rule exI [of _ "[Analyze combined]"])
               (simp add: sentiment_for_roles_def Let_def opN opV clN Inl
                  analyze_if_text_nonempty and_then_def expected_calls_def emit_as_update)
        next
          case (Inr v')
          show ?thesis
            by (rule exI [of _ "[Analyze ?op, Analyze ?cl, Analyze combined]"],
                rule exI [of _ "[]"])
               (simp add: sentiment_for_roles_def Let_def opN opV clN Inr
                  analyze_if_text_nonempty and_then_def analyze_text_def ret_def
                  expected_calls_def emit_as_update split: sum.splits)
        qed
      qed
    qed
  qed
qed

lemma sentiment_result:
  assumes "fst (sentiment_for_roles (Some an) tbs combined w) = Inr r"
  shows "\<exists>operator client overall.
     r = Some \<lparr> rs_operator = operator, rs_client = client, rs_overall = overall \<rparr> \<and>
     an combined = Inr overall \<and>
     (if role_text ''operator'' tbs = [] then operator = None
      else \<exists>v. an (role_text ''operator'' tbs) = Inr v \<and> operator = Some v) \<and>
     (if role_text ''client'' tbs = [] then client = None
      else \<exists>v. an (role_text ''client'' tbs) = Inr v \<and> client = Some v)"
  using assms
  by (auto simp: sentiment_for_roles_def Let_def analyze_if_text_def and_then_def
      analyze_text_def ret_def split: sum.splits if_splits prod.splits)

text \<open>
  Claim C9 (amended in its last part). Without a sentiment analyzer the aggregator
  returns the empty result and invokes nothing. With one, the invocations it adds are an
  initial part of: the operator text if it is not empty, the client text if it is not
  empty, the combined transcript; so each candidate is analysed at most once and there
  are at most three invocations. When it returns, all of them were made: the operator
  and the client entry are null exactly for an empty role text, which is not analysed,
  and the overall entry is the analysis of the combined transcript, which is invoked
  also when the combined transcript is empty.
\<close>

theorem sentiment_for_roles_spec:
  "sentiment_for_roles None tbs combined w = (Inr None, w) \<and>
   (\<exists>cs rest.
      snd (sentiment_for_roles (Some an) tbs combined w) = w \<lparr> calls := calls w @ cs \<rparr> \<and>
      cs @ rest =
        (if role_text ''operator'' tbs \<noteq> [] then [Analyze (role_text ''operator'' tbs)] else []) @
        (if role_text ''client'' tbs \<noteq> [] then [Analyze (role_text ''client'' tbs)] else []) @
        [Analyze combined] \<and>
      (\<forall>r. fst (sentiment_for_roles (Some an) tbs combined w) = Inr r \<longrightarrow>
         rest = [] \<and>
         (\<exists>operator client overall.
            r = Some \<lparr> rs_operator = operator, rs_client = client, rs_overall = overall \<rparr> \<and>
            an combined = Inr overall \<and>
            (if role_text ''operator'' tbs = [] then operator = None
             else \<exists>v. an (role_text ''operator'' tbs) = Inr v \<and> operator = Some v) \<and>
            (if role_text ''client'' tbs = [] then client = None
             else \<exists>v. an (role_text ''client'' tbs) = Inr v \<and> client = Some v))))"
proof (rule conjI)
  show "sentiment_for_roles None tbs combined w = (Inr None, w)"
    by (rule sentiment_without_analyzer)
next
  from sentiment_calls [of an tbs combined w]
  obtain cs rest where
    a: "snd (sentiment_for_roles (Some an) tbs combined w) = w \<lparr> calls := calls w @ cs \<rparr>"
    and b: "cs @ rest = expected_calls tbs combined"
    and c: "\<forall>r. fst (sentiment_for_roles (Some an) tbs combined w) = Inr r \<longrightarrow> rest = []"
    by blast
  have d: "\<forall>r. fst (sentiment_for_roles (Some an) tbs combined w) = Inr r \<longrightarrow>
         rest = [] \<and>
         (\<exists>operator client overall.
            r = Some \<lparr> rs_operator = operator, rs_client = client, rs_overall = overall \<rparr> \<and>
            an combined = Inr overall \<and>
            (if role_text ''operator'' tbs = [] then operator = None
             else \<exists>v. an (role_text ''operator'' tbs) = Inr v \<and> operator = Some v) \<and>
            (if role_text ''client'' tbs = [] then client = None
             else \<exists>v. an (role_text ''client'' tbs) = Inr v \<and> client = Some v))"
    using c sentiment_result [of an tbs combined w] by blast
  from a b [unfolded expected_calls_def] d
  show "\<exists>cs rest.
      snd (sentiment_for_roles (Some an) tbs combined w) = w \<lparr> calls := calls w @ cs \<rparr> \<and>
      cs @ rest =
        (if role_text ''operator'' tbs \<noteq> [] then [Analyze (role_text ''operator'' tbs)] else []) @
        (if role_text ''client'' tbs \<noteq> [] then [Analyze (role_text ''client'' tbs)] else []) @
        [Analyze combined] \<and>
      (\<forall>r. fst (sentiment_for_roles (Some an) tbs combined w) = Inr r \<longrightarrow>
         rest = [] \<and>
         (\<exists>operator client overall.
            r = Some \<lparr> rs_operator = operator, rs_client = client, rs_overall = overall \<rparr> \<and>
            an combined = Inr overall \<and>
            (if role_text ''operator'' tbs = [] then operator = None
             else \<exists>v. an (role_text ''operator'' tbs) = Inr v \<and> operator = Some v) \<and>
            (if role_text ''client'' tbs = [] then client = None
             else \<exists>v. an (role_text ''client'' tbs) = Inr v \<and> client = Some v)))"
    by (intro exI [of _ cs] exI [of _ rest] conjI)
qed

text \<open>
  The overall analysis is not skipped for an empty combined transcript: with an analyzer
  it is invoked on the empty text; and it is skipped, whatever the combined transcript,
  when there is no analyzer.
\<close>

theorem sentiment_overall_counterexample:
  "sentiment_for_roles (Some (\<lambda>t. Inr (length t) :: error + nat)) [] []
     \<lparr> fs = {}, calls = [] \<rparr> =
     (Inr (Some \<lparr> rs_operator = None, rs_client = None, rs_overall = 0 \<rparr>),
      \<lparr> fs = {}, calls = [Analyze []] \<rparr>) \<and>
   sentiment_for_roles (None :: nat analyzer option) [] ''[OPERATOR] hola''
     \<lparr> fs = {}, calls = [] \<rparr> =
     (Inr None, \<lparr> fs = {}, calls = [] \<rparr>)"
  by (simp add: sentiment_for_roles_def role_text_def analyze_if_text_def and_then_def
      analyze_text_def ret_def emit_def)

theorem sentiment_for_roles_spec_witness:
  "fst (sentiment_for_roles (Some (\<lambda>t. Inr (length t) :: error + nat))
     [\<lparr>st_speaker = ''channel_left'', st_role = Some ''operator'', st_text = ''hola'',
        st_duration = 1, st_segments = None, st_word_count = 1\<rparr>,
      \<lparr>st_speaker = ''channel_right'', st_role = Some ''client'', st_text = [],
        st_duration = 1, st_segments = None, st_word_count = 0\<rparr>]
     ''[OPERATOR] hola'' \<lparr> fs = {}, calls = [] \<rparr>) =
     Inr (Some \<lparr> rs_operator = Some 4, rs_client = None, rs_overall = 15 \<rparr>) \<and>
   calls (snd (sentiment_for_roles (Some (\<lambda>t. Inr (length t) :: error + nat))
     [\<lparr>st_speaker = ''channel_left'', st_role = Some ''operator'', st_text = ''hola'',
        st_duration = 1, st_segments = None, st_word_count = 1\<rparr>,
      \<lparr>st_speaker = ''channel_right'', st_role = Some ''client'', st_text = [],
        st_duration = 1, st_segments = None, st_word_count = 0\<rparr>]
     ''[OPERATOR] hola'' \<lparr> fs = {}, calls = [] \<rparr>)) =
     [Analyze ''hola'', Analyze ''[OPERATOR] hola'']"
proof -
  let ?an = "\<lambda>t. Inr (length t) :: error + nat"
  let ?tbs = "[\<lparr>st_speaker = ''channel_left'', st_role = Some ''operator'', st_text = ''hola'',
        st_duration = 1, st_segments = None, st_word_count = 1\<rparr>,
      \<lparr>st_speaker = ''channel_right'', st_role = Some ''client'', st_text = [],
        st_duration = 1, st_segments = None, st_word_count = 0\<rparr>]"
  let ?w = "\<lparr> fs = {}, calls = [] \<rparr>"
  have op: "role_text ''operator'' ?tbs = ''hola''" and cl: "role_text ''client'' ?tbs = []"
    by (simp_all add: role_text_def)
  have ev: "fst (sentiment_for_roles (Some ?an) ?tbs ''[OPERATOR] hola'' ?w) =
      Inr (Some \<lparr> rs_operator = Some 4, rs_client = None, rs_overall = 15 \<rparr>)"
    by (simp add: sentiment_for_roles_def Let_def op cl analyze_if_text_def and_then_def
        analyze_text_def ret_def emit_def)
  from sentiment_for_roles_spec [of ?tbs "''[OPERATOR] hola''" ?w ?an, THEN conjunct2]
  obtain cs rest where
    a: "snd (sentiment_for_roles (Some ?an) ?tbs ''[OPERATOR] hola'' ?w) =
        ?w \<lparr> calls := calls ?w @ cs \<rparr>"
    and b: "cs @ rest =
        (if role_text ''operator'' ?tbs \<noteq> [] then [Analyze (role_text ''operator'' ?tbs)] else []) @
        (if role_text ''client'' ?tbs \<noteq> [] then [Analyze (role_text ''client'' ?tbs)] else []) @
        [Analyze ''[OPERATOR] hola'']"
    and c: "\<forall>r. fst (sentiment_for_roles (Some ?an) ?tbs ''[OPERATOR] hola'' ?w) = Inr r \<longrightarrow>
         rest = []"
    by blast
  from c ev have "rest = []" by blast
  with b have "cs = [Analyze ''hola'', Analyze ''[OPERATOR] hola'']"
    by (simp add: op cl)
  with a have "calls (snd (sentiment_for_roles (Some ?an) ?tbs ''[OPERATOR] hola'' ?w)) =
      [Analyze ''hola'', Analyze ''[OPERATOR] hola'']"
    by simp
  with ev show ?thesis by (intro conjI)
qed

subsection \<open>SpeakerRoleAnalyzer: effects of the facade\<close>

lemma and_then_Inr:
  "and_then m f w = (Inr r, w') \<Longrightarrow> \<exists>x w1. m w = (Inr x, w1) \<and> f x w1 = (Inr r, w')"
  by (auto simp: and_then_def split: prod.splits sum.splits)

lemma and_then_cases:
  "(\<exists>e w1. m w = (Inl e, w1) \<and> and_then m f w = (Inl e, w1)) \<or>
   (\<exists>x w1. m w = (Inr x, w1) \<and> and_then m f w = f x w1)"
  by (cases "m w" rule: prod.exhaust; cases "fst (m w)") (auto simp: and_then_def)

lemma adds_and_then:
  assumes "adds P m" and "\<And>x. adds P (f x)"
  shows "adds P (and_then m f)"
  unfolding adds_def
proof
  fix w
  from assms(1) obtain cs where cs: "calls (snd (m w)) = calls w @ cs" "list_all P cs"
    unfolding adds_def by blast
  from and_then_cases [of m w f] show "\<exists>cs. calls (snd (and_then m f w)) = calls w @ cs \<and> list_all P cs"
  proof (elim disjE exE conjE)
    fix e w1 assume "m w = (Inl e, w1)" "and_then m f w = (Inl e, w1)"
    with cs show ?thesis by auto
  next
    fix x w1 assume a: "m w = (Inr x, w1)" "and_then m f w = f x w1"
    from assms(2) [of x] obtain cs' where
      cs': "calls (snd (f x w1)) = calls w1 @ cs'" "list_all P cs'"
      unfolding adds_def by blast
    from a cs have "calls w1 = calls w @ cs" by simp
    with cs' a cs(2) have "calls (snd (and_then m f w)) = calls w @ (cs @ cs') \<and> list_all P (cs @ cs')"
      by simp
    then show ?thesis by blast
  qed
qed

lemma adds_ret: "adds P (ret x)"
  by (auto simp: adds_def ret_def)

lemma adds_require_dict: "adds P (require_dict v)"
  by (auto simp: adds_def require_dict_def split: option.splits)

lemma adds_emit:
  assumes "P ev"
  shows "adds P (\<lambda>w. (x, emit ev w))"
  unfolding adds_def
proof
  fix w
  have "calls (snd (x, emit ev w)) = calls w @ [ev] \<and> list_all P [ev]"
    using assms by (simp add: emit_def)
  then show "\<exists>cs. calls (snd (x, emit ev w)) = calls w @ cs \<and> list_all P cs" by blast
qed

lemma adds_transcribe: "P (Transcribe p b) \<Longrightarrow> adds P (transcribe c p b)"
  unfolding transcribe_def by (rule adds_emit)

lemma adds_analyze_text: "P (Analyze t) \<Longrightarrow> adds P (analyze_text an t)"
  unfolding analyze_text_def by (rule adds_emit)

lemma adds_analyze_if_text: "P (Analyze t) \<Longrightarrow> adds P (analyze_if_text an t)"
  unfolding analyze_if_text_def
  by (simp add: adds_ret) (intro impI adds_and_then adds_analyze_text adds_ret)

lemma adds_sentiment:
  assumes "\<And>t. P (Analyze t)"
  shows "adds P (sentiment_for_roles an_opt tbs combined)"
proof (cases an_opt)
  case None
  then show ?thesis by (simp add: sentiment_for_roles_def adds_ret)
next
  case (Some an)
  show ?thesis
    unfolding sentiment_for_roles_def Some option.case Let_def
    by (intro adds_and_then adds_analyze_if_text adds_analyze_text adds_ret assms)
qed

lemma split_stereo_channels_calls:
  "calls (snd (split_stereo_channels c p w)) = calls w"
proof (cases "c_from_file c p")
  case (Inl e)
  then show ?thesis by (simp add: split_stereo_channels_def)
next
  case (Inr audio)
  then show ?thesis by (simp add: split_stereo_channels_def Let_def)
qed

lemma adds_split:
  assumes "P (Split p)"
  shows "adds P (\<lambda>w. split_stereo_channels c p (emit (Split p) w))"
  unfolding adds_def
proof
  fix w
  have "calls (snd (split_stereo_channels c p (emit (Split p) w))) = calls w @ [Split p]"
    by (simp add: split_stereo_channels_calls emit_def)
  moreover have "list_all P [Split p]" using assms by simp
  ultimately show "\<exists>cs. calls (snd (split_stereo_channels c p (emit (Split p) w))) = calls w @ cs \<and>
      list_all P cs" by blast
qed

lemma adds_case_prod:
  assumes "\<And>a b. adds P (g a b)"
  shows "adds P (case_prod g x)"
  using assms by (cases x) simp

lemma stereo_event_simps:
  "stereo_event (Split p)" "stereo_event (Transcribe p b)" "stereo_event (Analyze t)"
  "\<not> stereo_event (Diarize p)" "\<not> stereo_event Align" "\<not> stereo_event Aggregate"
  "\<not> stereo_event InferRoles"
  by (simp_all add: stereo_event_def)

lemma adds_process_stereo: "adds stereo_event (process_stereo c p profile)"
  unfolding process_stereo_def Let_def
  apply (rule adds_and_then)
   apply (rule adds_split, rule stereo_event_simps)
  apply (rule adds_case_prod)
  apply (rule adds_and_then)
   apply (rule adds_transcribe, rule stereo_event_simps)
  apply (rule adds_and_then)
   apply (rule adds_transcribe, rule stereo_event_simps)
  apply (rule adds_and_then)
   apply (rule adds_require_dict)
  apply (rule adds_and_then)
   apply (rule adds_require_dict)
  apply (rule adds_and_then)
   apply (rule adds_sentiment, rule stereo_event_simps)
  apply (rule adds_ret)
  done

lemma returns_and_then:
  assumes "returns R m" and "\<And>x. R x \<Longrightarrow> returns Q (f x)"
  shows "returns Q (and_then m f)"
  unfolding returns_def
proof (intro allI impI)
  fix w r w' assume "and_then m f w = (Inr r, w')"
  from and_then_Inr [OF this] obtain x w1 where x: "m w = (Inr x, w1)" "f x w1 = (Inr r, w')"
    by blast
  from assms(1) x(1) have "R x" unfolding returns_def by blast
  from assms(2) [OF this] x(2) show "Q r" unfolding returns_def by blast
qed

lemma returns_any: "returns (\<lambda>x. True) m"
  by (simp add: returns_def)

lemma returns_ret: "Q x \<Longrightarrow> returns Q (ret x)"
  by (simp add: returns_def ret_def)

lemma returns_case_prod:
  assumes "\<And>a b. returns Q (g a b)"
  shows "returns Q (case_prod g x)"
  using assms by (cases x) simp

lemma returnsD: "returns Q m \<Longrightarrow> m w = (Inr r, w') \<Longrightarrow> Q r"
  unfolding returns_def by blast

lemma keeps_fs_and_then:
  assumes "keeps_fs m" and "\<And>x. keeps_fs (f x)"
  shows "keeps_fs (and_then m f)"
  unfolding keeps_fs_def
proof
  fix w
  from and_then_cases [of m w f] show "fs (snd (and_then m f w)) = fs w"
  proof (elim disjE exE conjE)
    fix e w1 assume a: "m w = (Inl e, w1)" "and_then m f w = (Inl e, w1)"
    from assms(1) have "fs (snd (m w)) = fs w" unfolding keeps_fs_def by blast
    with a show ?thesis by simp
  next
    fix x w1 assume a: "m w = (Inr x, w1)" "and_then m f w = f x w1"
    from assms(1) have "fs (snd (m w)) = fs w" unfolding keeps_fs_def by blast
    with a have "fs w1 = fs w" by simp
    moreover from assms(2) [of x] have "fs (snd (f x w1)) = fs w1" unfolding keeps_fs_def by blast
    ultimately show ?thesis using a by simp
  qed
qed

lemma fs_and_then:
  assumes "m w = (Inr x, w1)" and "keeps_fs (f x)"
  shows "fs (snd (and_then m f w)) = fs w1"
  using assms by (simp add: and_then_def keeps_fs_def)

lemma keeps_fs_ret: "keeps_fs (ret x)"
  by (simp add: keeps_fs_def ret_def)

lemma keeps_fs_require_dict: "keeps_fs (require_dict v)"
  by (simp add: keeps_fs_def require_dict_def split: option.splits)

lemma keeps_fs_emit: "keeps_fs (\<lambda>w. (x, emit ev w))"
  by (simp add: keeps_fs_def emit_def)

lemma keeps_fs_transcribe: "keeps_fs (transcribe c p b)"
  unfolding transcribe_def by (rule keeps_fs_emit)

lemma keeps_fs_analyze_text: "keeps_fs (analyze_text an t)"
  unfolding analyze_text_def by (rule keeps_fs_emit)

lemma keeps_fs_analyze_if_text: "keeps_fs (analyze_if_text an t)"
  unfolding analyze_if_text_def
  by (simp add: keeps_fs_ret) (intro impI keeps_fs_and_then keeps_fs_analyze_text keeps_fs_ret)

lemma keeps_fs_sentiment: "keeps_fs (sentiment_for_roles an_opt tbs combined)"
proof (cases an_opt)
  case None
  then show ?thesis by (simp add: sentiment_for_roles_def keeps_fs_ret)
next
  case (Some an)
  show ?thesis
    unfolding sentiment_for_roles_def Some option.case Let_def
    by (intro keeps_fs_and_then keeps_fs_analyze_if_text keeps_fs_analyze_text keeps_fs_ret)
qed

lemma keeps_fs_case_prod:
  assumes "\<And>a b. keeps_fs (g a b)"
  shows "keeps_fs (case_prod g x)"
  using assms by (cases x) simp

lemma split_stereo_channels_ok:
  assumes "c_from_file c p = Inr audio" and "au_channels audio = 2"
  shows "split_stereo_channels c p w =
     (Inr (c_temp_name c (fs w) ''_left.wav'',
           c_temp_name c (insert (c_temp_name c (fs w) ''_left.wav'') (fs w)) ''_right.wav''),
      w \<lparr> fs := insert
             (c_temp_name c (insert (c_temp_name c (fs w) ''_left.wav'') (fs w)) ''_right.wav'')
             (insert (c_temp_name c (fs w) ''_left.wav'') (fs w)) \<rparr>)"
  by (simp add: split_stereo_channels_def assms Let_def)

lemma process_stereo_files:
  assumes "c_from_file c p = Inr audio" and "au_channels audio = 2"
  shows "fs (snd (process_stereo c p profile w)) =
     insert (c_temp_name c (insert (c_temp_name c (fs w) ''_left.wav'') (fs w)) ''_right.wav'')
       (insert (c_temp_name c (fs w) ''_left.wav'') (fs w))"
proof -
  let ?L = "c_temp_name c (fs w) ''_left.wav''"
  let ?R = "c_temp_name c (insert ?L (fs w)) ''_right.wav''"
  let ?W = "emit (Split p) w \<lparr> fs := insert ?R (insert ?L (fs w)) \<rparr>"
  have m: "split_stereo_channels c p (emit (Split p) w) = (Inr (?L, ?R), ?W)"
    using split_stereo_channels_ok [OF assms, of "emit (Split p) w"]
    by (simp add: emit_def)
  have "fs (snd (process_stereo c p profile w)) = fs ?W"
    unfolding process_stereo_def Let_def
    apply (rule fs_and_then [where x = "(?L, ?R)"])
     apply (rule m)
    apply (rule keeps_fs_case_prod)
    apply (rule keeps_fs_and_then, rule keeps_fs_transcribe)
    apply (rule keeps_fs_and_then, rule keeps_fs_transcribe)
    apply (rule keeps_fs_and_then, rule keeps_fs_require_dict)
    apply (rule keeps_fs_and_then, rule keeps_fs_require_dict)
    apply (rule keeps_fs_and_then, rule keeps_fs_sentiment)
    apply (rule keeps_fs_ret)
    done
  then show ?thesis by simp
qed

lemma process_stereo_returns:
  "returns (\<lambda>r. tr_role_mapping (pr_transcript r) = stereo_role_mapping \<and>
                ss_role_mapping (pr_speaker_summary r) = stereo_role_mapping \<and>
                tr_segments (pr_transcript r) = [])
     (process_stereo c p profile)"
  unfolding process_stereo_def Let_def
  apply (rule returns_and_then, rule returns_any)
  apply (rule returns_case_prod)
  apply (rule returns_and_then, rule returns_any)
  apply (rule returns_and_then, rule returns_any)
  apply (rule returns_and_then, rule returns_any)
  apply (rule returns_and_then, rule returns_any)
  apply (rule returns_and_then, rule returns_any)
  apply (rule returns_ret)
  apply (simp add: build_speaker_summary_def)
  done

lemma sentiment_total:
  assumes "\<forall>an t. an_opt = Some an \<longrightarrow> (\<exists>v. an t = Inr v)"
  shows "\<exists>s. fst (sentiment_for_roles an_opt tbs combined w) = Inr s"
proof (cases an_opt)
  case None
  then show ?thesis by (simp add: sentiment_for_roles_def ret_def)
next
  case (Some an)
  with assms have tot: "\<And>t. \<exists>v. an t = Inr v" by blast
  obtain v1 where v1: "an (role_text ''operator'' tbs) = Inr v1" using tot by blast
  obtain v2 where v2: "an (role_text ''client'' tbs) = Inr v2" using tot by blast
  obtain v3 where v3: "an combined = Inr v3" using tot by blast
  show ?thesis
    by (simp add: sentiment_for_roles_def Some Let_def analyze_if_text_def and_then_def
        analyze_text_def ret_def v1 v2 v3)
qed

lemma process_stereo_total:
  assumes f: "c_from_file c p = Inr audio" and ch: "au_channels audio = 2"
    and t1: "c_transcribe_file c (c_temp_name c (fs w) ''_left.wav'') False = Inr (Some otx)"
    and t2: "c_transcribe_file c
        (c_temp_name c (insert (c_temp_name c (fs w) ''_left.wav'') (fs w)) ''_right.wav'')
        False = Inr (Some ctx)"
    and an: "\<forall>an t. c_sentiment_analyzer c = Some an \<longrightarrow> (\<exists>v. an t = Inr v)"
  shows "\<exists>r. fst (process_stereo c p profile w) = Inr r"
proof -
  let ?L = "c_temp_name c (fs w) ''_left.wav''"
  let ?R = "c_temp_name c (insert ?L (fs w)) ''_right.wav''"
  let ?W = "emit (Split p) w \<lparr> fs := insert ?R (insert ?L (fs w)) \<rparr>"
  let ?W3 = "emit (Transcribe ?R False) (emit (Transcribe ?L False) ?W)"
  let ?tbs = "stereo_entries profile otx ctx"
  have m: "split_stereo_channels c p (emit (Split p) w) = (Inr (?L, ?R), ?W)"
    using split_stereo_channels_ok [OF f ch, of "emit (Split p) w"]
    by (simp add: emit_def)
  from sentiment_total [OF an] obtain s where
    "fst (sentiment_for_roles (c_sentiment_analyzer c) ?tbs (build_labeled_transcript ?tbs) ?W3)
       = Inr s" by blast
  then obtain w4 where s:
    "sentiment_for_roles (c_sentiment_analyzer c) ?tbs (build_labeled_transcript ?tbs) ?W3
       = (Inr s, w4)" by (metis prod.collapse)
  show ?thesis
    by (simp add: process_stereo_def and_then_def m transcribe_def t1 t2 require_dict_def
        Let_def s ret_def)
qed

subsection \<open>SpeakerRoleAnalyzer: the stereo path\<close>

lemma process_audio_stereo_eq:
  assumes "c_from_file c p = Inr audio" and "au_channels audio = 2"
  shows "process_audio c p w = process_stereo c p (profile_of c p audio) w"
  by (simp add: process_audio_def detect_audio_profile_def is_stereo_def assms profile_of_def)

lemma process_audio_mono_eq:
  assumes "c_from_file c p = Inr audio" and "au_channels audio \<noteq> 2"
  shows "process_audio c p w = process_mono c p (profile_of c p audio) w"
  by (simp add: process_audio_def detect_audio_profile_def is_stereo_def assms profile_of_def)

text \<open>
  Claim C2. For a file the decoder reports as two-channel, whenever \<open>process_audio\<close>
  returns, the role mapping of the transcript (and of the speaker summary) has operator
  "channel\_left", client "channel\_right", confidence 0.95 and strategy
  "stereo\_channel\_mapping", and the list of segments of the transcript is empty. The
  invocations it makes, whether it returns or raises, are of the splitter, the
  transcriber and the sentiment analyzer only: neither the diarizer nor the aligner nor
  the role inference is invoked. It does return when the transcriber returns a dict for
  both channel files and the sentiment analyzer, if there is one, does not fail.
\<close>

theorem process_audio_stereo:
  "c_from_file c audio_path = Inr audio \<and> au_channels audio = 2 \<longrightarrow>
     (\<forall>r w'. process_audio c audio_path w = (Inr r, w') \<longrightarrow>
        rm_operator (tr_role_mapping (pr_transcript r)) = Some ''channel_left'' \<and>
        rm_client (tr_role_mapping (pr_transcript r)) = Some ''channel_right'' \<and>
        rm_confidence (tr_role_mapping (pr_transcript r)) = 95/100 \<and>
        rm_strategy (tr_role_mapping (pr_transcript r)) = ''stereo_channel_mapping'' \<and>
        ss_role_mapping (pr_speaker_summary r) = tr_role_mapping (pr_transcript r) \<and>
        tr_segments (pr_transcript r) = []) \<and>
     (\<exists>cs. calls (snd (process_audio c audio_path w)) = calls w @ cs \<and>
        (\<forall>p. Diarize p \<notin> set cs) \<and> Align \<notin> set cs \<and> InferRoles \<notin> set cs) \<and>
     (\<forall>operator_tx client_tx.
        c_transcribe_file c (c_temp_name c (fs w) ''_left.wav'') False = Inr (Some operator_tx) \<and>
        c_transcribe_file c
          (c_temp_name c (insert (c_temp_name c (fs w) ''_left.wav'') (fs w)) ''_right.wav'')
          False = Inr (Some client_tx) \<and>
        (\<forall>an t. c_sentiment_analyzer c = Some an \<longrightarrow> (\<exists>v. an t = Inr v)) \<longrightarrow>
        (\<exists>r. fst (process_audio c audio_path w) = Inr r))"
proof (intro impI)
  assume "c_from_file c audio_path = Inr audio \<and> au_channels audio = 2"
  then have f: "c_from_file c audio_path = Inr audio" and ch: "au_channels audio = 2"
    by simp_all
  note eq = process_audio_stereo_eq [OF f ch]
  have a: "\<forall>r w'. process_audio c audio_path w = (Inr r, w') \<longrightarrow>
        rm_operator (tr_role_mapping (pr_transcript r)) = Some ''channel_left'' \<and>
        rm_client (tr_role_mapping (pr_transcript r)) = Some ''channel_right'' \<and>
        rm_confidence (tr_role_mapping (pr_transcript r)) = 95/100 \<and>
        rm_strategy (tr_role_mapping (pr_transcript r)) = ''stereo_channel_mapping'' \<and>
        ss_role_mapping (pr_speaker_summary r) = tr_role_mapping (pr_transcript r) \<and>
        tr_segments (pr_transcript r) = []"
  proof (intro allI impI)
    fix r w' assume "process_audio c audio_path w = (Inr r, w')"
    then have "process_stereo c audio_path (profile_of c audio_path audio) w = (Inr r, w')"
      by (simp only: eq)
    from returnsD [OF process_stereo_returns this]
    show "rm_operator (tr_role_mapping (pr_transcript r)) = Some ''channel_left'' \<and>
        rm_client (tr_role_mapping (pr_transcript r)) = Some ''channel_right'' \<and>
        rm_confidence (tr_role_mapping (pr_transcript r)) = 95/100 \<and>
        rm_strategy (tr_role_mapping (pr_transcript r)) = ''stereo_channel_mapping'' \<and>
        ss_role_mapping (pr_speaker_summary r) = tr_role_mapping (pr_transcript r) \<and>
        tr_segments (pr_transcript r) = []"
      by (simp add: stereo_role_mapping_def)
  qed
  have b: "\<exists>cs. calls (snd (process_audio c audio_path w)) = calls w @ cs \<and>
        (\<forall>p. Diarize p \<notin> set cs) \<and> Align \<notin> set cs \<and> InferRoles \<notin> set cs"
  proof -
    from adds_process_stereo [of c audio_path "profile_of c audio_path audio"]
    obtain cs where cs: "calls (snd (process_stereo c audio_path (profile_of c audio_path audio) w))
        = calls w @ cs" "list_all stereo_event cs"
      unfolding adds_def by blast
    from cs(2) have "\<forall>ev \<in> set cs. stereo_event ev" by (simp only: list_all_iff)
    then have "(\<forall>p. Diarize p \<notin> set cs) \<and> Align \<notin> set cs \<and> InferRoles \<notin> set cs"
      using stereo_event_simps(4-7) by blast
    with cs(1) show ?thesis by (simp only: eq) blast
  qed
  have t: "\<forall>operator_tx client_tx.
        c_transcribe_file c (c_temp_name c (fs w) ''_left.wav'') False = Inr (Some operator_tx) \<and>
        c_transcribe_file c
          (c_temp_name c (insert (c_temp_name c (fs w) ''_left.wav'') (fs w)) ''_right.wav'')
          False = Inr (Some client_tx) \<and>
        (\<forall>an t. c_sentiment_analyzer c = Some an \<longrightarrow> (\<exists>v. an t = Inr v)) \<longrightarrow>
        (\<exists>r. fst (process_audio c audio_path w) = Inr r)"
  proof (intro allI impI, elim conjE)
    fix operator_tx client_tx
    assume "c_transcribe_file c (c_temp_name c (fs w) ''_left.wav'') False = Inr (Some operator_tx)"
      "c_transcribe_file c
          (c_temp_name c (insert (c_temp_name c (fs w) ''_left.wav'') (fs w)) ''_right.wav'')
          False = Inr (Some client_tx)"
      "\<forall>an t. c_sentiment_analyzer c = Some an \<longrightarrow> (\<exists>v. an t = Inr v)"
    from process_stereo_total [OF f ch this]
    show "\<exists>r. fst (process_audio c audio_path w) = Inr r"
      by (simp only: eq)
  qed
  from a b t show "(\<forall>r w'. process_audio c audio_path w = (Inr r, w') \<longrightarrow>
        rm_operator (tr_role_mapping (pr_transcript r)) = Some ''channel_left'' \<and>
        rm_client (tr_role_mapping (pr_transcript r)) = Some ''channel_right'' \<and>
        rm_confidence (tr_role_mapping (pr_transcript r)) = 95/100 \<and>
        rm_strategy (tr_role_mapping (pr_transcript r)) = ''stereo_channel_mapping'' \<and>
        ss_role_mapping (pr_speaker_summary r) = tr_role_mapping (pr_transcript r) \<and>
        tr_segments (pr_transcript r) = []) \<and>
     (\<exists>cs. calls (snd (process_audio c audio_path w)) = calls w @ cs \<and>
        (\<forall>p. Diarize p \<notin> set cs) \<and> Align \<notin> set cs \<and> InferRoles \<notin> set cs) \<and>
     (\<forall>operator_tx client_tx.
        c_transcribe_file c (c_temp_name c (fs w) ''_left.wav'') False = Inr (Some operator_tx) \<and>
        c_transcribe_file c
          (c_temp_name c (insert (c_temp_name c (fs w) ''_left.wav'') (fs w)) ''_right.wav'')
          False = Inr (Some client_tx) \<and>
        (\<forall>an t. c_sentiment_analyzer c = Some an \<longrightarrow> (\<exists>v. an t = Inr v)) \<longrightarrow>
        (\<exists>r. fst (process_audio c audio_path w) = Inr r))"
    by (intro conjI)
qed

theorem process_audio_stereo_witness:
  "c_from_file demo_collaborators ''llamada.wav'' =
     Inr \<lparr> au_channels = 2, au_frame_rate = 8000, au_length_ms = 4000, au_sample_width = 2 \<rparr> \<and>
   (\<exists>r. fst (process_audio demo_collaborators ''llamada.wav'' \<lparr> fs = {}, calls = [] \<rparr>) = Inr r \<and>
      rm_operator (tr_role_mapping (pr_transcript r)) = Some ''channel_left'' \<and>
      rm_client (tr_role_mapping (pr_transcript r)) = Some ''channel_right'' \<and>
      rm_confidence (tr_role_mapping (pr_transcript r)) = 95/100 \<and>
      rm_strategy (tr_role_mapping (pr_transcript r)) = ''stereo_channel_mapping'' \<and>
      tr_segments (pr_transcript r) = [])"
proof -
  let ?A = "\<lparr> au_channels = 2, au_frame_rate = 8000, au_length_ms = 4000, au_sample_width = 2 \<rparr>"
  let ?w = "\<lparr> fs = {}, calls = [] \<rparr>"
  let ?tx = "\<lparr> tx_text = Some ''hola buenos dias'', tx_language = Some ''es'',
               tx_duration = Some 2, tx_segments = Some [] \<rparr>"
  have f: "c_from_file demo_collaborators ''llamada.wav'' = Inr ?A"
    by (simp add: demo_collaborators_def)
  have ch: "au_channels ?A = 2" by simp
  note th = process_audio_stereo [of demo_collaborators "''llamada.wav''" ?A ?w, THEN mp,
      OF conjI [OF f ch]]
  have t1: "c_transcribe_file demo_collaborators
      (c_temp_name demo_collaborators (fs ?w) ''_left.wav'') False = Inr (Some ?tx)"
    by (simp add: demo_collaborators_def)
  have t2: "c_transcribe_file demo_collaborators
      (c_temp_name demo_collaborators
         (insert (c_temp_name demo_collaborators (fs ?w) ''_left.wav'') (fs ?w)) ''_right.wav'')
      False = Inr (Some ?tx)"
    by (simp add: demo_collaborators_def)
  have an: "\<forall>an t. c_sentiment_analyzer demo_collaborators = Some an \<longrightarrow> (\<exists>v. an t = Inr v)"
    by (simp add: demo_collaborators_def)
  from th [THEN conjunct2, THEN conjunct2] t1 t2 an
  obtain r where r: "fst (process_audio demo_collaborators ''llamada.wav'' ?w) = Inr r"
    by blast
  then have "process_audio demo_collaborators ''llamada.wav'' ?w =
      (Inr r, snd (process_audio demo_collaborators ''llamada.wav'' ?w))"
    by (metis prod.collapse)
  with th [THEN conjunct1] have
    "rm_operator (tr_role_mapping (pr_transcript r)) = Some ''channel_left'' \<and>
      rm_client (tr_role_mapping (pr_transcript r)) = Some ''channel_right'' \<and>
      rm_confidence (tr_role_mapping (pr_transcript r)) = 95/100 \<and>
      rm_strategy (tr_role_mapping (pr_transcript r)) = ''stereo_channel_mapping'' \<and>
      tr_segments (pr_transcript r) = []"
    by blast
  with r f show ?thesis by blast
qed

text \<open>
  Claim C10 (amended: the files are kept, not deleted). For a file the decoder reports
  as two-channel, the splitter creates two temporary channel files and nothing deletes
  them: on every exit of \<open>process_audio\<close>, whether it returns or raises after the split,
  the files on disk are the ones present before together with the two channel files.
\<close>

theorem process_audio_keeps_channel_files:
  "c_from_file c audio_path = Inr audio \<and> au_channels audio = 2 \<longrightarrow>
     fs (snd (process_audio c audio_path w)) =
       insert
         (c_temp_name c (insert (c_temp_name c (fs w) ''_left.wav'') (fs w)) ''_right.wav'')
         (insert (c_temp_name c (fs w) ''_left.wav'') (fs w))"
proof
  assume "c_from_file c audio_path = Inr audio \<and> au_channels audio = 2"
  then have f: "c_from_file c audio_path = Inr audio" and ch: "au_channels audio = 2"
    by simp_all
  show "fs (snd (process_audio c audio_path w)) =
       insert
         (c_temp_name c (insert (c_temp_name c (fs w) ''_left.wav'') (fs w)) ''_right.wav'')
         (insert (c_temp_name c (fs w) ''_left.wav'') (fs w))"
    by (simp only: process_audio_stereo_eq [OF f ch] process_stereo_files [OF f ch])
qed

text \<open>
  The channel files are not deleted: after a stereo call that returns, with no file on
  disk before it, both channel files are on disk.
\<close>

theorem channel_files_remain_counterexample:
  "(\<exists>r. fst (process_audio demo_collaborators ''llamada.wav'' \<lparr> fs = {}, calls = [] \<rparr>) = Inr r) \<and>
   fs (snd (process_audio demo_collaborators ''llamada.wav'' \<lparr> fs = {}, calls = [] \<rparr>)) =
     {''/tmp/tmp_left.wav'', ''/tmp/tmp_right.wav''}"
proof -
  let ?A = "\<lparr> au_channels = 2, au_frame_rate = 8000, au_length_ms = 4000, au_sample_width = 2 \<rparr>"
  let ?w = "\<lparr> fs = {}, calls = [] \<rparr>"
  let ?tx = "\<lparr> tx_text = Some ''hola buenos dias'', tx_language = Some ''es'',
               tx_duration = Some 2, tx_segments = Some [] \<rparr>"
  have f: "c_from_file demo_collaborators ''llamada.wav'' = Inr ?A"
    by (simp add: demo_collaborators_def)
  have ch: "au_channels ?A = 2" by simp
  have t1: "c_transcribe_file demo_collaborators
      (c_temp_name demo_collaborators (fs ?w) ''_left.wav'') False = Inr (Some ?tx)"
    by (simp add: demo_collaborators_def)
  have t2: "c_transcribe_file demo_collaborators
      (c_temp_name demo_collaborators
         (insert (c_temp_name demo_collaborators (fs ?w) ''_left.wav'') (fs ?w)) ''_right.wav'')
      False = Inr (Some ?tx)"
    by (simp add: demo_collaborators_def)
  have an: "\<forall>an t. c_sentiment_analyzer demo_collaborators = Some an \<longrightarrow> (\<exists>v. an t = Inr v)"
    by (simp add: demo_collaborators_def)
  have "\<exists>r. fst (process_stereo demo_collaborators ''llamada.wav''
      (profile_of demo_collaborators ''llamada.wav'' ?A) ?w) = Inr r"
    by (rule process_stereo_total [OF f ch t1 t2 an])
  then have a: "\<exists>r. fst (process_audio demo_collaborators ''llamada.wav'' ?w) = Inr r"
    by (simp only: process_audio_stereo_eq [OF f ch])
  have "fs (snd (process_audio demo_collaborators ''llamada.wav'' ?w)) =
      insert (c_temp_name demo_collaborators
                (insert (c_temp_name demo_collaborators (fs ?w) ''_left.wav'') (fs ?w))
                ''_right.wav'')
        (insert (c_temp_name demo_collaborators (fs ?w) ''_left.wav'') (fs ?w))"
    by (simp only: process_audio_stereo_eq [OF f ch] process_stereo_files [OF f ch])
  then have b: "fs (snd (process_audio demo_collaborators ''llamada.wav'' ?w)) =
      {''/tmp/tmp_left.wav'', ''/tmp/tmp_right.wav''}"
    by (simp add: demo_collaborators_def insert_commute)
  from a b show ?thesis by (intro conjI)
qed

theorem process_audio_keeps_channel_files_witness:
  "c_from_file (demo_collaborators \<lparr> c_transcribe_file := (\<lambda>p with_segments. Inr None) \<rparr>)
     ''llamada.wav'' =
     Inr \<lparr> au_channels = 2, au_frame_rate = 8000, au_length_ms = 4000, au_sample_width = 2 \<rparr> \<and>
   fst (process_audio (demo_collaborators \<lparr> c_transcribe_file := (\<lambda>p with_segments. Inr None) \<rparr>)
     ''llamada.wav'' \<lparr> fs = {''/tmp/otro.wav''}, calls = [] \<rparr>) = Inl AttributeError \<and>
   fs (snd (process_audio
     (demo_collaborators \<lparr> c_transcribe_file := (\<lambda>p with_segments. Inr None) \<rparr>)
     ''llamada.wav'' \<lparr> fs = {''/tmp/otro.wav''}, calls = [] \<rparr>)) =
     {''/tmp/tmp_right.wav'', ''/tmp/tmp_left.wav'', ''/tmp/otro.wav''}"
proof -
  let ?c = "demo_collaborators \<lparr> c_transcribe_file := (\<lambda>p with_segments. Inr None) \<rparr>"
  let ?A = "\<lparr> au_channels = 2, au_frame_rate = 8000, au_length_ms = 4000, au_sample_width = 2 \<rparr>"
  let ?w = "\<lparr> fs = {''/tmp/otro.wav''}, calls = [] \<rparr>"
  have f: "c_from_file ?c ''llamada.wav'' = Inr ?A"
    by (simp add: demo_collaborators_def)
  have ch: "au_channels ?A = 2" by simp
  have "fst (process_stereo ?c ''llamada.wav'' (profile_of ?c ''llamada.wav'' ?A) ?w) =
      Inl AttributeError"
    by (simp add: process_stereo_def and_then_def split_stereo_channels_def
        demo_collaborators_def transcribe_def require_dict_def Let_def)
  then have e: "fst (process_audio ?c ''llamada.wav'' ?w) = Inl AttributeError"
    by (simp only: process_audio_stereo_eq [OF f ch])
  from process_audio_keeps_channel_files [of ?c "''llamada.wav''" ?A ?w, THEN mp,
      OF conjI [OF f ch]]
  have "fs (snd (process_audio ?c ''llamada.wav'' ?w)) =
      {''/tmp/tmp_right.wav'', ''/tmp/tmp_left.wav'', ''/tmp/otro.wav''}"
    by (simp add: demo_collaborators_def)
  with f e show ?thesis by (intro conjI)
qed

subsection \<open>SpeakerRoleAnalyzer: the mono path\<close>

lemma diarize_labels:
  assumes "diarize load d p = Inr segs"
  shows "\<forall>s \<in> set segs. ds_speaker s \<in> {''speaker_1'', ''speaker_2''}"
proof (cases "load p (frame_length_of d) (hop_length_of d)")
  case (Inl e)
  with assms show ?thesis by (simp add: diarize_def)
next
  case (Inr yr)
  obtain y_len rms where yr: "yr = (y_len, rms)" by (cases yr)
  show ?thesis
  proof (cases "np_max rms")
    case (Inl e)
    with assms Inr yr show ?thesis by (simp add: diarize_def)
  next
    case m: (Inr m)
    let ?scan = "scan_segments (threshold_of d (normalized m rms)) (hop_length_of d) 16000
        (normalized m rms)"
    from assms have segs: "segs = (if ?scan = [] then [fallback_segment y_len] else ?scan)"
      by (simp add: diarize_def Inr yr m Let_def split: if_splits)
    have "\<forall>s \<in> set ?scan. ds_speaker s \<in> {''speaker_1'', ''speaker_2''}"
    proof
      fix s assume "s \<in> set ?scan"
      then obtain k r where "s = spec_segment (hop_length_of d) 16000 (k, r)"
        by (auto simp: scan_segments_runs)
      then show "ds_speaker s \<in> {''speaker_1'', ''speaker_2''}"
        by (simp add: spec_segment_fields)
    qed
    then show ?thesis
      by (simp add: segs fallback_segment_def)
  qed
qed

lemma align_labels:
  assumes "\<forall>s \<in> set diar. ds_speaker s \<in> {''speaker_1'', ''speaker_2''}"
  shows "\<forall>a \<in> set (align_segments wss diar). as_speaker a \<in> {''speaker_1'', ''speaker_2''}"
proof
  fix a assume "a \<in> set (align_segments wss diar)"
  then obtain ws where a: "a = align_one diar ws"
    by (auto simp: align_segments_map)
  show "as_speaker a \<in> {''speaker_1'', ''speaker_2''}"
  proof (cases "matched diar ws")
    case None
    then show ?thesis by (simp add: a align_one_none)
  next
    case (Some ds)
    then have "ds \<in> set diar"
      by (auto simp: matched_def find_Some_iff)
    with assms have "ds_speaker ds \<in> {''speaker_1'', ''speaker_2''}" by blast
    moreover have "as_speaker a = ds_speaker ds"
      by (simp add: a align_one_def Let_def Some)
    ultimately show ?thesis by simp
  qed
qed

lemma aggregate_mono_labelled:
  assumes "\<forall>a \<in> set segs. as_speaker a \<in> {''speaker_1'', ''speaker_2''}"
  shows "mono_labelled (aggregate_by_speaker segs)"
  unfolding mono_labelled_def
proof
  fix e assume "e \<in> set (aggregate_by_speaker segs)"
  then obtain k where k: "k \<in> set (map as_speaker segs)" and e: "e = folded_entry k segs"
    by (auto simp: aggregate_by_speaker_eq set_first_appearance)
  from k assms have "k \<in> {''speaker_1'', ''speaker_2''}" by auto
  then show "st_role e = None \<and> st_speaker e \<in> {''speaker_1'', ''speaker_2''}"
    by (simp add: e folded_entry_fields)
qed

lemma mono_role_or_speaker:
  assumes "mono_labelled tbs" and "e \<in> set tbs"
  shows "role_or_speaker e \<noteq> ''operator''" and "role_or_speaker e \<noteq> ''client''"
proof -
  from assms have "st_role e = None" and "st_speaker e \<in> {''speaker_1'', ''speaker_2''}"
    by (simp_all add: mono_labelled_def)
  then show "role_or_speaker e \<noteq> ''operator''" and "role_or_speaker e \<noteq> ''client''"
    by (auto simp: role_or_speaker_def)
qed

lemma mono_role_words:
  assumes "mono_labelled tbs"
  shows "role_words ''operator'' tbs = 0" and "role_words ''client'' tbs = 0"
proof -
  have "filter (\<lambda>e. role_or_speaker e = ''operator'') tbs = []"
    using mono_role_or_speaker(1) [OF assms] by (simp add: filter_empty_conv)
  then show "role_words ''operator'' tbs = 0" by (simp add: role_words_def)
  have "filter (\<lambda>e. role_or_speaker e = ''client'') tbs = []"
    using mono_role_or_speaker(2) [OF assms] by (simp add: filter_empty_conv)
  then show "role_words ''client'' tbs = 0" by (simp add: role_words_def)
qed

lemma mono_balance:
  assumes "mono_labelled tbs"
  shows "compute_speaking_balance tbs = zero_balance"
  by (simp add: compute_speaking_balance_def count_words_totals mono_role_words [OF assms]
      zero_balance_def)

lemma mono_role_text:
  assumes "mono_labelled tbs"
  shows "role_text role tbs = []"
proof -
  from assms have "filter (\<lambda>entry. st_role entry = Some role) tbs = []"
    by (simp add: filter_empty_conv mono_labelled_def)
  then show ?thesis by (simp add: role_text_def)
qed

lemma mono_sentiment:
  assumes "mono_labelled tbs"
  shows "returns (\<lambda>s. case s of None \<Rightarrow> an_opt = None
                       | Some rs \<Rightarrow> rs_operator rs = None \<and> rs_client rs = None)
           (sentiment_for_roles an_opt tbs combined)"
proof (cases an_opt)
  case None
  then show ?thesis by (simp add: returns_def sentiment_for_roles_def ret_def)
next
  case (Some an)
  show ?thesis
    unfolding returns_def
    by (auto simp: Some sentiment_for_roles_def Let_def mono_role_text [OF assms]
        analyze_if_text_def and_then_def analyze_text_def ret_def split: sum.splits)
qed

lemma returns_emit: "(\<And>v. x = Inr v \<Longrightarrow> Q v) \<Longrightarrow> returns Q (\<lambda>w. (x, emit ev w))"
  by (simp add: returns_def)

lemma returns_pure_emit: "Q v \<Longrightarrow> returns Q (\<lambda>w. (Inr v, emit ev w))"
  by (simp add: returns_def)

lemma process_mono_returns:
  "returns (\<lambda>r. mono_labelled (tr_transcript_by_speaker (pr_transcript r)) \<and>
                infer_roles (tr_transcript_by_speaker (pr_transcript r)) =
                  Inr (tr_role_mapping (pr_transcript r)) \<and>
                tr_speaking_balance (pr_transcript r) = zero_balance \<and>
                ss_speaking_balance (pr_speaker_summary r) = zero_balance \<and>
                (case tr_sentiment_by_role (pr_transcript r) of
                   None \<Rightarrow> c_sentiment_analyzer c = None
                 | Some rs \<Rightarrow> rs_operator rs = None \<and> rs_client rs = None))
     (process_mono c p profile)"
  unfolding process_mono_def Let_def
  apply (rule returns_and_then
      [where R = "\<lambda>segs. \<forall>s \<in> set segs. ds_speaker s \<in> {''speaker_1'', ''speaker_2''}"])
   apply (rule returns_emit, erule diarize_labels)
  apply (rule returns_and_then, rule returns_any)
  apply (rule returns_and_then, rule returns_any)
  apply (rule returns_and_then
      [where R = "\<lambda>segs. \<forall>a \<in> set segs. as_speaker a \<in> {''speaker_1'', ''speaker_2''}"])
   apply (rule returns_pure_emit, rule align_labels, assumption)
  apply (rule returns_and_then [where R = mono_labelled])
   apply (rule returns_pure_emit, rule aggregate_mono_labelled, assumption)
  apply (rule returns_and_then [where R = "\<lambda>rm. infer_roles x = Inr rm" for x])
   apply (rule returns_emit, assumption)
  apply (rule returns_and_then)
   apply (erule mono_sentiment)
  apply (rule returns_ret)
  apply (simp add: mono_balance build_speaker_summary_def)
  done

lemma dict_set_nonempty: "dict_set k v d \<noteq> []"
  by (cases d) (auto split: if_splits)

lemma score_loop_nonempty:
  "scores \<noteq> [] \<or> rest \<noteq> [] \<Longrightarrow> score_loop scores idx rest \<noteq> []"
  by (induction rest arbitrary: scores idx) (simp_all add: dict_set_nonempty)

lemma infer_roles_total: "\<exists>rm. infer_roles tbs = Inr rm"
proof (cases "tbs = []")
  case True
  then show ?thesis by (simp add: infer_roles_def)
next
  case False
  let ?scores = "score_loop [] 0 tbs"
  from False have ne: "?scores \<noteq> []" by (simp add: score_loop_nonempty)
  show ?thesis
  proof (cases "length ?scores = 1")
    case True
    then obtain x where "?scores = [x]"
      by (cases ?scores) auto
    with False True show ?thesis
      by (cases x) (simp add: infer_roles_def)
  next
    case l: False
    have "length (sorted_desc ?scores) = length ?scores"
      by (simp add: sorted_desc_def)
    with ne l obtain a b rest where s: "sorted_desc ?scores = a # b # rest"
      by (cases "sorted_desc ?scores" rule: list.exhaust; cases "tl (sorted_desc ?scores)")
         auto
    obtain ka sa where a: "a = (ka, sa)" by (cases a)
    obtain kb sb where b: "b = (kb, sb)" by (cases b)
    from False l show ?thesis
      by (simp add: infer_roles_def Let_def s a b)
  qed
qed

lemma process_mono_total:
  assumes l: "c_librosa c p (frame_length_of default_diarizer) (hop_length_of default_diarizer)
      = Inr (y_len, rms)"
    and ne: "rms \<noteq> []"
    and t: "c_transcribe_file c p True = Inr (Some whisper_result)"
    and an: "\<forall>an t. c_sentiment_analyzer c = Some an \<longrightarrow> (\<exists>v. an t = Inr v)"
  shows "\<exists>r. fst (process_mono c p profile w) = Inr r"
proof -
  from np_max_nonempty [OF ne] obtain m where m: "np_max rms = Inr m" by blast
  from diarize_loaded [of "c_librosa c" p default_diarizer y_len rms m, OF l m]
  obtain segs where d: "diarize (c_librosa c) default_diarizer p = Inr segs" by blast
  let ?al = "align_segments (get_or [] (tx_segments whisper_result)) segs"
  let ?tbs = "aggregate_by_speaker ?al"
  let ?W = "emit InferRoles (emit Aggregate (emit Align (emit (Transcribe p True)
      (emit (Diarize p) w))))"
  from infer_roles_total obtain rm where rm: "infer_roles ?tbs = Inr rm" by blast
  from sentiment_total [OF an] obtain s where
    "fst (sentiment_for_roles (c_sentiment_analyzer c) ?tbs (build_labeled_transcript ?tbs) ?W)
       = Inr s" by blast
  then obtain w' where s:
    "sentiment_for_roles (c_sentiment_analyzer c) ?tbs (build_labeled_transcript ?tbs) ?W
       = (Inr s, w')" by (metis prod.collapse)
  show ?thesis
    by (simp add: process_mono_def and_then_def d transcribe_def t require_dict_def
        Let_def rm s ret_def)
qed

text \<open>
  Claim C8. For a file the decoder reports with a channel count other than two, whenever
  \<open>process_audio\<close> returns: no entry of \<open>transcript_by_speaker\<close> carries a role (the
  inferred role mapping, which is the result of the role inference on these entries, is
  not written onto them) and every speaker label is one of the diarizer's; so the
  operator and client word totals are both 0 and the speaking balance, in the transcript
  and in the speaker summary, is the zeroed no-data balance; and the sentiment by role
  is either empty (no analyzer) or has null for both the operator and the client.
\<close>

theorem process_audio_mono_no_roles:
  "c_from_file c audio_path = Inr audio \<and> au_channels audio \<noteq> 2 \<longrightarrow>
     (\<forall>r w'. process_audio c audio_path w = (Inr r, w') \<longrightarrow>
        (\<forall>e \<in> set (tr_transcript_by_speaker (pr_transcript r)).
           st_role e = None \<and> st_speaker e \<in> {''speaker_1'', ''speaker_2''}) \<and>
        infer_roles (tr_transcript_by_speaker (pr_transcript r)) =
          Inr (tr_role_mapping (pr_transcript r)) \<and>
        role_words ''operator'' (tr_transcript_by_speaker (pr_transcript r)) +
        role_words ''client'' (tr_transcript_by_speaker (pr_transcript r)) = 0 \<and>
        tr_speaking_balance (pr_transcript r) =
          \<lparr> sb_operator_percentage = 0, sb_client_percentage = 0,
            sb_operator_words = None, sb_client_words = None, sb_unit = None,
            sb_balance_quality = ''SIN_DATOS'', sb_note = Some ''sin palabras'' \<rparr> \<and>
        ss_speaking_balance (pr_speaker_summary r) = tr_speaking_balance (pr_transcript r) \<and>
        (case tr_sentiment_by_role (pr_transcript r) of
           None \<Rightarrow> c_sentiment_analyzer c = None
         | Some rs \<Rightarrow> rs_operator rs = None \<and> rs_client rs = None))"
proof (intro impI allI)
  fix r w'
  assume "c_from_file c audio_path = Inr audio \<and> au_channels audio \<noteq> 2"
  then have f: "c_from_file c audio_path = Inr audio" and ch: "au_channels audio \<noteq> 2"
    by simp_all
  assume "process_audio c audio_path w = (Inr r, w')"
  then have "process_mono c audio_path (profile_of c audio_path audio) w = (Inr r, w')"
    by (simp only: process_audio_mono_eq [OF f ch])
  from returnsD [OF process_mono_returns this]
  have ml: "mono_labelled (tr_transcript_by_speaker (pr_transcript r))"
    and ir: "infer_roles (tr_transcript_by_speaker (pr_transcript r)) =
          Inr (tr_role_mapping (pr_transcript r))"
    and b1: "tr_speaking_balance (pr_transcript r) = zero_balance"
    and b2: "ss_speaking_balance (pr_speaker_summary r) = zero_balance"
    and se: "(case tr_sentiment_by_role (pr_transcript r) of
           None \<Rightarrow> c_sentiment_analyzer c = None
         | Some rs \<Rightarrow> rs_operator rs = None \<and> rs_client rs = None)"
    by simp_all
  from ml have e: "\<forall>e \<in> set (tr_transcript_by_speaker (pr_transcript r)).
           st_role e = None \<and> st_speaker e \<in> {''speaker_1'', ''speaker_2''}"
    by (simp only: mono_labelled_def)
  have z: "role_words ''operator'' (tr_transcript_by_speaker (pr_transcript r)) +
        role_words ''client'' (tr_transcript_by_speaker (pr_transcript r)) = 0"
    by (simp add: mono_role_words [OF ml])
  from b1 have b1': "tr_speaking_balance (pr_transcript r) =
          \<lparr> sb_operator_percentage = 0, sb_client_percentage = 0,
            sb_operator_words = None, sb_client_words = None, sb_unit = None,
            sb_balance_quality = ''SIN_DATOS'', sb_note = Some ''sin palabras'' \<rparr>"
    by (simp only: zero_balance_def)
  from b1 b2 have b2': "ss_speaking_balance (pr_speaker_summary r) =
      tr_speaking_balance (pr_transcript r)"
    by simp
  from e ir z b1' b2' se
  show "(\<forall>e \<in> set (tr_transcript_by_speaker (pr_transcript r)).
           st_role e = None \<and> st_speaker e \<in> {''speaker_1'', ''speaker_2''}) \<and>
        infer_roles (tr_transcript_by_speaker (pr_transcript r)) =
          Inr (tr_role_mapping (pr_transcript r)) \<and>
        role_words ''operator'' (tr_transcript_by_speaker (pr_transcript r)) +
        role_words ''client'' (tr_transcript_by_speaker (pr_transcript r)) = 0 \<and>
        tr_speaking_balance (pr_transcript r) =
          \<lparr> sb_operator_percentage = 0, sb_client_percentage = 0,
            sb_operator_words = None, sb_client_words = None, sb_unit = None,
            sb_balance_quality = ''SIN_DATOS'', sb_note = Some ''sin palabras'' \<rparr> \<and>
        ss_speaking_balance (pr_speaker_summary r) = tr_speaking_balance (pr_transcript r) \<and>
        (case tr_sentiment_by_role (pr_transcript r) of
           None \<Rightarrow> c_sentiment_analyzer c = None
         | Some rs \<Rightarrow> rs_operator rs = None \<and> rs_client rs = None)"
    by (intro conjI)
qed

theorem process_audio_mono_no_roles_witness:
  "c_from_file
     (demo_collaborators \<lparr> c_from_file := (\<lambda>p. Inr \<lparr> au_channels = 1, au_frame_rate = 8000,
         au_length_ms = 4000, au_sample_width = 2 \<rparr>) \<rparr>) ''llamada.wav'' =
     Inr \<lparr> au_channels = 1, au_frame_rate = 8000, au_length_ms = 4000, au_sample_width = 2 \<rparr> \<and>
   (\<exists>r. fst (process_audio
        (demo_collaborators \<lparr> c_from_file := (\<lambda>p. Inr \<lparr> au_channels = 1, au_frame_rate = 8000,
            au_length_ms = 4000, au_sample_width = 2 \<rparr>) \<rparr>)
        ''llamada.wav'' \<lparr> fs = {}, calls = [] \<rparr>) = Inr r \<and>
      sb_balance_quality (tr_speaking_balance (pr_transcript r)) = ''SIN_DATOS'' \<and>
      sb_operator_percentage (tr_speaking_balance (pr_transcript r)) = 0 \<and>
      sb_client_percentage (tr_speaking_balance (pr_transcript r)) = 0 \<and>
      (\<exists>rs. tr_sentiment_by_role (pr_transcript r) = Some rs \<and>
         rs_operator rs = None \<and> rs_client rs = None))"
proof -
  let ?A = "\<lparr> au_channels = 1, au_frame_rate = 8000, au_length_ms = 4000, au_sample_width = 2 \<rparr>"
  let ?c = "demo_collaborators \<lparr> c_from_file := (\<lambda>p. Inr ?A) \<rparr>"
  let ?w = "\<lparr> fs = {}, calls = [] \<rparr>"
  let ?wr = "\<lparr> tx_text = Some ''hola buenos dias'', tx_language = Some ''es'',
               tx_duration = Some 2,
               tx_segments = Some [\<lparr> ws_start = Some 0, ws_end = Some (1/10),
                                     ws_text = Some ''hola buenos dias'' \<rparr>] \<rparr>"
  have f: "c_from_file ?c ''llamada.wav'' = Inr ?A"
    by (simp add: demo_collaborators_def)
  have ch: "au_channels ?A \<noteq> 2" by simp
  have l: "c_librosa ?c ''llamada.wav'' (frame_length_of default_diarizer)
      (hop_length_of default_diarizer) = Inr (1024, [0, 1, 1, 0, 1])"
    by (simp add: demo_collaborators_def)
  have ne: "[0, 1, 1, 0, 1 :: rat] \<noteq> []" by simp
  have t: "c_transcribe_file ?c ''llamada.wav'' True = Inr (Some ?wr)"
    by (simp add: demo_collaborators_def)
  have an: "\<forall>an t. c_sentiment_analyzer ?c = Some an \<longrightarrow> (\<exists>v. an t = Inr v)"
    by (simp add: demo_collaborators_def)
  have az: "c_sentiment_analyzer ?c \<noteq> None"
    by (simp add: demo_collaborators_def)
  from process_mono_total [OF l ne t an]
  have "\<exists>r. fst (process_mono ?c ''llamada.wav'' (profile_of ?c ''llamada.wav'' ?A) ?w) = Inr r" .
  then obtain r where r: "fst (process_audio ?c ''llamada.wav'' ?w) = Inr r"
    by (simp only: process_audio_mono_eq [OF f ch]) blast
  then have pr: "process_audio ?c ''llamada.wav'' ?w =
      (Inr r, snd (process_audio ?c ''llamada.wav'' ?w))"
    by (metis prod.collapse)
  note th = process_audio_mono_no_roles [of ?c "''llamada.wav''" ?A ?w, THEN mp,
      OF conjI [OF f ch], THEN spec, THEN spec, THEN mp, OF pr]
  from th have bal: "tr_speaking_balance (pr_transcript r) =
          \<lparr> sb_operator_percentage = 0, sb_client_percentage = 0,
            sb_operator_words = None, sb_client_words = None, sb_unit = None,
            sb_balance_quality = ''SIN_DATOS'', sb_note = Some ''sin palabras'' \<rparr>"
    by blast
  from th have se: "(case tr_sentiment_by_role (pr_transcript r) of
           None \<Rightarrow> c_sentiment_analyzer ?c = None
         | Some rs \<Rightarrow> rs_operator rs = None \<and> rs_client rs = None)"
    by blast
  have "\<exists>rs. tr_sentiment_by_role (pr_transcript r) = Some rs \<and>
         rs_operator rs = None \<and> rs_client rs = None"
  proof (cases "tr_sentiment_by_role (pr_transcript r)")
    case None
    with se az show ?thesis by simp
  next
    case (Some rs)
    with se show ?thesis by simp
  qed
  with r f bal show ?thesis
    by (intro conjI exI [of _ r]) simp_all
qed
end
